theory Spec2Isabelle
  imports Complex_Main "HOL-Library.Multiset"
begin

section \<open>Numeric model\<close>

text \<open>
  The arrays of the program hold double-precision numbers. They are modelled as real
  (and complex) numbers: rounding and overflow are left out. The values that IEEE
  arithmetic produces where the real operation is undefined (a square root of a negative
  number, a division by zero) are kept as values of their own, so that a computation that
  goes on with such a value does so in the model as well.

  A one-dimensional array is a list. The arrays \<^verbatim>\<open>R\<close> and
  \<^verbatim>\<open>intersection_line\<close> have three rows and one column for each baseline or
  candidate; they are modelled as the list of their columns, each a triple. Every other
  matrix is the list of its rows. Counts and array positions are natural numbers: the
  positions come from \<^verbatim>\<open>np.where\<close> and are never negative.
\<close>

datatype 'a npval = Fin 'a | PInf | NInf | NaN

datatype error = IndexError | ValueError | ZeroDivisionError

type_synonym vec3 = "real \<times> real \<times> real"

type_synonym matrix = "real list list"

text \<open>\<^verbatim>\<open>a[i]\<close> on a Python list or a one-dimensional array.\<close>

definition get :: "'a list \<Rightarrow> nat \<Rightarrow> error + 'a" where
  "get a i = (if i < length a then Inr (a ! i) else Inl IndexError)"

text \<open>
  \<^verbatim>\<open>a[idx]\<close> with an array of positions (also \<^verbatim>\<open>a[:, idx]\<close> on an
  array kept as the list of its columns): one position out of range raises.
\<close>

definition take_idx :: "'a list \<Rightarrow> nat list \<Rightarrow> error + 'a list" where
  "take_idx a idx =
     (if list_all (\<lambda>i. i < length a) idx then Inr (map ((!) a) idx) else Inl IndexError)"

text \<open>\<^verbatim>\<open>np.where(c)[0]\<close>: the positions where the condition holds, ascending.\<close>

definition np_where :: "bool list \<Rightarrow> nat list" where
  "np_where c = filter ((!) c) [0..<length c]"

text \<open>
  An elementwise operation on two one-dimensional arrays: equal lengths, or one operand of
  length one that is stretched; any other pair of shapes raises.
\<close>

definition broadcast2 :: "('a \<Rightarrow> 'b \<Rightarrow> 'c) \<Rightarrow> 'a list \<Rightarrow> 'b list \<Rightarrow> error + 'c list" where
  "broadcast2 f xs ys =
     (if length xs = length ys then Inr (map2 f xs ys)
      else if length xs = 1 then Inr (map (f (hd xs)) ys)
      else if length ys = 1 then Inr (map (\<lambda>x. f x (hd ys)) xs)
      else Inl ValueError)"

text \<open>\<^verbatim>\<open>np.sqrt\<close> of a real: not a number below zero (with a warning, no exception).\<close>

definition np_sqrt :: "real \<Rightarrow> real npval" where
  "np_sqrt x = (if x < 0 then NaN else Fin (sqrt x))"

text \<open>Division of arrays: a zero divisor gives an infinity, or not a number for 0/0.\<close>

definition np_divide :: "real \<Rightarrow> real \<Rightarrow> real npval" where
  "np_divide a b =
     (if b \<noteq> 0 then Fin (a / b)
      else if a = 0 then NaN
      else if 0 < a then PInf else NInf)"

text \<open>
  A complex number divided by a real one. With a zero divisor the quotient of zero is not
  a number; a nonzero numerator gives a value with infinite parts, written \<open>PInf\<close> here.
\<close>

definition np_cdivide :: "complex \<Rightarrow> real \<Rightarrow> complex npval" where
  "np_cdivide z d =
     (if d \<noteq> 0 then Fin (z / of_real d) else if z = 0 then NaN else PInf)"

text \<open>\<^verbatim>\<open>np.repeat([row], repeats=n, axis=0)\<close>: \<open>n\<close> copies of the row.\<close>

definition np_repeat0 :: "'a list \<Rightarrow> nat \<Rightarrow> 'a list list" where
  "np_repeat0 row n = replicate n row"

text \<open>\<^verbatim>\<open>np.repeat(a, repeats=n, axis=1)\<close>: every entry of every row \<open>n\<close> times.\<close>

definition np_repeat1 :: "'a list list \<Rightarrow> nat \<Rightarrow> 'a list list" where
  "np_repeat1 a n = map (\<lambda>row. concat (map (replicate n) row)) a"

text \<open>\<^verbatim>\<open>np.transpose\<close> of a matrix with \<open>c\<close> columns.\<close>

definition np_transpose :: "nat \<Rightarrow> 'a list list \<Rightarrow> 'a list list" where
  "np_transpose c a = map (\<lambda>j. map (\<lambda>row. row ! j) a) [0..<c]"

text \<open>An elementwise operation on two matrices of one shape.\<close>

definition mat_map2 :: "('a \<Rightarrow> 'b \<Rightarrow> 'c) \<Rightarrow> 'a list list \<Rightarrow> 'b list list \<Rightarrow> 'c list list" where
  "mat_map2 f a b = map2 (map2 f) a b"

text \<open>\<^verbatim>\<open>np.linalg.norm(a, axis=0)\<close> of a complex matrix with \<open>c\<close> columns.\<close>

definition norm_axis0 :: "nat \<Rightarrow> complex list list \<Rightarrow> real list" where
  "norm_axis0 c a = map (\<lambda>j. sqrt (\<Sum>row\<leftarrow>a. (cmod (row ! j))\<^sup>2)) [0..<c]"

text \<open>\<^verbatim>\<open>int(x)\<close> of a float: truncation towards zero.\<close>

definition py_int :: "real \<Rightarrow> int" where
  "py_int x = (if 0 \<le> x then \<lfloor>x\<rfloor> else \<lceil>x\<rceil>)"

text \<open>\<^verbatim>\<open>range(a, b)\<close>.\<close>

definition py_range :: "int \<Rightarrow> int \<Rightarrow> int list" where
  "py_range a b = [a..b - 1]"

text \<open>
  \<^verbatim>\<open>itertools.product\<close> of two and of three iterables: the last one runs fastest.
  A triple is kept as a list of three offsets, the row it becomes in
  \<^verbatim>\<open>np.array(PERMS_J)\<close>.
\<close>

definition product2 :: "'a list \<Rightarrow> 'b list \<Rightarrow> ('a \<times> 'b) list" where
  "product2 xs ys = concat (map (\<lambda>x. map (Pair x) ys) xs)"

definition product3 :: "'a list \<Rightarrow> 'a list \<Rightarrow> 'a list \<Rightarrow> 'a list list" where
  "product3 xs ys zs = concat (map (\<lambda>x. concat (map (\<lambda>y. map (\<lambda>z. [x, y, z]) zs) ys)) xs)"

text \<open>
  \<^verbatim>\<open>np.array(rows)[idx, :]\<close> needs a two-dimensional array: an empty list, or rows
  of different lengths, give a one-dimensional one, and indexing it with two subscripts
  raises.
\<close>

definition np_array2 :: "'a list list \<Rightarrow> error + 'a list list" where
  "np_array2 rows =
     (if rows \<noteq> [] \<and> list_all (\<lambda>r. length r = length (hd rows)) rows then Inr rows
      else Inl IndexError)"

section \<open>Geometry\<close>

text \<open>
  \<^verbatim>\<open>R_cal(sensor_groups, xycoords)\<close>:
  \<^verbatim>\<open>R = np.zeros((3, sensor_groups)); R[0, :] = xycoords[:sensor_groups, 0];
  R[1, :] = xycoords[:sensor_groups, 1]; R[2, :] = np.multiply(0, xycoords[:sensor_groups, 0])\<close>.
  The slice is cut at the end of \<^verbatim>\<open>xycoords\<close>; storing it in a row of
  \<^verbatim>\<open>R\<close> needs the length of the row, or length one. There is no test on the
  number of baselines.
\<close>

definition R_cal :: "nat \<Rightarrow> (real \<times> real) list \<Rightarrow> error + vec3 list" where
  "R_cal sensor_groups xycoords =
     (let c = take sensor_groups xycoords;
          col = (\<lambda>(x, y). (x, y, 0 * x))
      in if length c = sensor_groups then Inr (map col c)
         else if length c = 1 then Inr (replicate sensor_groups (col (hd c)))
         else Inl ValueError)"

text \<open>
  \<^verbatim>\<open>linCoeff_cal(R)\<close>:
  \<^verbatim>\<open>np.sum(R ** 2, axis=0) / np.linalg.norm(R, axis=0)\<close>, column by column.
\<close>

definition linCoeff_cal :: "vec3 list \<Rightarrow> real npval list" where
  "linCoeff_cal R =
     map (\<lambda>(x, y, z). np_divide (x\<^sup>2 + y\<^sup>2 + z\<^sup>2) (sqrt (x\<^sup>2 + y\<^sup>2 + z\<^sup>2))) R"

text \<open>The Euclidean norm of a column, used to state properties.\<close>

definition norm3 :: "vec3 \<Rightarrow> real" where
  "norm3 v = (case v of (x, y, z) \<Rightarrow> sqrt (x\<^sup>2 + y\<^sup>2 + z\<^sup>2))"

section \<open>The pseudo-inverse solve\<close>

text \<open>
  \<^verbatim>\<open>np.linalg.pinv\<close> is a function of the library; it is a parameter \<open>pinv\<close> of
  the model. \<^verbatim>\<open>np.dot\<close> of two matrices raises when the inner dimensions differ.
\<close>

definition ncols :: "'a list list \<Rightarrow> nat" where
  "ncols a = (case a of [] \<Rightarrow> 0 | row # _ \<Rightarrow> length row)"

definition mat_mul :: "matrix \<Rightarrow> matrix \<Rightarrow> matrix" where
  "mat_mul a b =
     map (\<lambda>row. map (\<lambda>j. \<Sum>k\<leftarrow>[0..<length b]. row ! k * b ! k ! j) [0..<ncols b]) a"

definition dot :: "matrix \<Rightarrow> matrix \<Rightarrow> error + matrix" where
  "dot a b =
     (if list_all (\<lambda>row. length row = length b) a then Inr (mat_mul a b) else Inl ValueError)"

text \<open>
  \<^verbatim>\<open>np.linalg.multi_dot([A, B, C])\<close>: the library multiplies in the cheaper of the
  two orders, by the number of scalar multiplications.
\<close>

definition multi_dot3 :: "matrix \<Rightarrow> matrix \<Rightarrow> matrix \<Rightarrow> error + matrix" where
  "multi_dot3 A B C =
     (let a0 = length A; a1b0 = ncols A; b1c0 = length C; c1 = ncols C;
          cost1 = a0 * b1c0 * (a1b0 + c1);
          cost2 = a1b0 * c1 * (a0 + b1c0)
      in if cost1 < cost2
         then (case dot A B of Inl e \<Rightarrow> Inl e | Inr ab \<Rightarrow> dot ab C)
         else (case dot B C of Inl e \<Rightarrow> Inl e | Inr bc \<Rightarrow> dot A bc))"

text \<open>A one-dimensional array as a matrix of one column, and back.\<close>

definition column :: "real list \<Rightarrow> matrix" where
  "column v = map (\<lambda>x. [x]) v"

definition ravel :: "matrix \<Rightarrow> real list" where
  "ravel a = concat a"

text \<open>\<^verbatim>\<open>np.linalg.norm\<close> of a matrix and of a one-dimensional array.\<close>

definition frobenius :: "matrix \<Rightarrow> real" where
  "frobenius a = sqrt (\<Sum>row\<leftarrow>a. \<Sum>x\<leftarrow>row. x\<^sup>2)"

definition norm2 :: "real list \<Rightarrow> real" where
  "norm2 v = sqrt (\<Sum>x\<leftarrow>v. x\<^sup>2)"

text \<open>\<^verbatim>\<open>a[:, 0]\<close> and \<^verbatim>\<open>a[:, j]\<close> of a matrix.\<close>

definition col0 :: "matrix \<Rightarrow> error + real list" where
  "col0 a = (if list_all (\<lambda>row. 0 < length row) a then Inr (map (\<lambda>row. row ! 0) a)
             else Inl IndexError)"

definition get_column :: "matrix \<Rightarrow> nat \<Rightarrow> error + real list" where
  "get_column a j =
     (if list_all (\<lambda>row. j < length row) a then Inr (map (\<lambda>row. row ! j) a) else Inl IndexError)"

text \<open>
  \<^verbatim>\<open>mooore_penrose_solution(W, b)\<close>, with \<open>b\<close> a matrix of one column:
  \<^verbatim>\<open>Moore_Penrose_solution_check = np.linalg.multi_dot([W, np.linalg.pinv(W), b]) - b;
  intersection_line = np.dot(np.linalg.pinv(W), b)[:, 0];
  pinv_norm = np.linalg.norm(Moore_Penrose_solution_check)\<close>.
\<close>

definition mooore_penrose_solution ::
  "(matrix \<Rightarrow> matrix) \<Rightarrow> matrix \<Rightarrow> matrix \<Rightarrow> error + real list \<times> real" where
  "mooore_penrose_solution pinv W b =
     (case multi_dot3 W (pinv W) b of Inl e \<Rightarrow> Inl e | Inr wpb \<Rightarrow>
     (case broadcast2 (map2 (-)) wpb b of Inl e \<Rightarrow> Inl e | Inr Moore_Penrose_solution_check \<Rightarrow>
     (case dot (pinv W) b of Inl e \<Rightarrow> Inl e | Inr pb \<Rightarrow>
     (case col0 pb of Inl e \<Rightarrow> Inl e | Inr intersection_line \<Rightarrow>
        Inr (intersection_line, frobenius Moore_Penrose_solution_check)))))"

text \<open>A matrix of \<open>m\<close> rows and \<open>n\<close> columns.\<close>

definition is_mat :: "nat \<Rightarrow> nat \<Rightarrow> 'a list list \<Rightarrow> bool" where
  "is_mat m n a \<longleftrightarrow> length a = m \<and> list_all (\<lambda>row. length row = n) a"

section \<open>Evaluation of a stage into the result buffers\<close>

text \<open>
  The two buffers of a stage: one column of \<^verbatim>\<open>intersection_line_set\<close> and one
  entry of \<^verbatim>\<open>pinv_norm_set\<close> for each candidate.
\<close>

record bufs =
  intersection_line_set :: "vec3 list"
  pinv_norm_set :: "real list"

text \<open>
  Storing a one-dimensional array in a column of three rows: three entries, or one entry
  stretched.
\<close>

definition to_vec3 :: "real list \<Rightarrow> error + vec3" where
  "to_vec3 v = (case v of [x, y, z] \<Rightarrow> Inr (x, y, z) | [x] \<Rightarrow> Inr (x, x, x) | _ \<Rightarrow> Inl ValueError)"

text \<open>
  The two values one iteration of \<^verbatim>\<open>mooore_penrose_solution_ptr\<close> computes for the
  position \<open>ind\<close>, with \<^verbatim>\<open>b = b_set[:, ind]\<close>:
  \<^verbatim>\<open>np.linalg.norm(np.linalg.multi_dot([W, Wpinv, b]) - b)\<close> and
  \<^verbatim>\<open>np.dot(Wpinv, b)\<close>. The library takes the one-dimensional \<open>b\<close> as a column
  and flattens the product.
\<close>

definition slot_norm :: "matrix \<Rightarrow> matrix \<Rightarrow> matrix \<Rightarrow> nat \<Rightarrow> error + real" where
  "slot_norm W Wpinv b_set ind =
     (case get_column b_set ind of Inl e \<Rightarrow> Inl e | Inr b \<Rightarrow>
     (case multi_dot3 W Wpinv (column b) of Inl e \<Rightarrow> Inl e | Inr wpb \<Rightarrow>
     (case broadcast2 (-) (ravel wpb) b of Inl e \<Rightarrow> Inl e | Inr Moore_Penrose_solution_check \<Rightarrow>
        Inr (norm2 Moore_Penrose_solution_check))))"

definition slot_line :: "matrix \<Rightarrow> matrix \<Rightarrow> nat \<Rightarrow> error + vec3" where
  "slot_line Wpinv b_set ind =
     (case get_column b_set ind of Inl e \<Rightarrow> Inl e | Inr b \<Rightarrow>
     (case dot Wpinv (column b) of Inl e \<Rightarrow> Inl e | Inr pb \<Rightarrow> to_vec3 (ravel pb)))"

text \<open>
  The two stores of an iteration, \<^verbatim>\<open>pinv_norm_set[ind] = ...\<close> and
  \<^verbatim>\<open>intersection_line_set[:, ind] = ...\<close>, are the steps at which threads
  interleave.
\<close>

datatype slot_write = WriteNorm nat | WriteLine nat

fun write_index :: "slot_write \<Rightarrow> nat" where
  "write_index (WriteNorm ind) = ind"
| "write_index (WriteLine ind) = ind"

fun exec_write :: "matrix \<Rightarrow> matrix \<Rightarrow> matrix \<Rightarrow> slot_write \<Rightarrow> bufs \<Rightarrow> error + bufs" where
  "exec_write W Wpinv b_set (WriteNorm ind) st =
     (case slot_norm W Wpinv b_set ind of Inl e \<Rightarrow> Inl e | Inr r \<Rightarrow>
        if ind < length (pinv_norm_set st)
        then Inr (st\<lparr>pinv_norm_set := (pinv_norm_set st)[ind := r]\<rparr>)
        else Inl IndexError)"
| "exec_write W Wpinv b_set (WriteLine ind) st =
     (case slot_line Wpinv b_set ind of Inl e \<Rightarrow> Inl e | Inr x \<Rightarrow>
        if ind < length (intersection_line_set st)
        then Inr (st\<lparr>intersection_line_set := (intersection_line_set st)[ind := x]\<rparr>)
        else Inl IndexError)"

text \<open>
  \<^verbatim>\<open>mooore_penrose_solution_ptr(W, Wpinv, b_set, intersection_line_set, pinv_norm_set,
  ind_range)\<close>: the loop \<^verbatim>\<open>for ind in ind_range\<close>, run by one thread.
\<close>

fun mooore_penrose_solution_ptr ::
  "matrix \<Rightarrow> matrix \<Rightarrow> matrix \<Rightarrow> bufs \<Rightarrow> nat list \<Rightarrow> error + bufs" where
  "mooore_penrose_solution_ptr W Wpinv b_set st [] = Inr st"
| "mooore_penrose_solution_ptr W Wpinv b_set st (ind # ind_range) =
     (case exec_write W Wpinv b_set (WriteNorm ind) st of Inl e \<Rightarrow> Inl e | Inr st1 \<Rightarrow>
     (case exec_write W Wpinv b_set (WriteLine ind) st1 of Inl e \<Rightarrow> Inl e | Inr st2 \<Rightarrow>
        mooore_penrose_solution_ptr W Wpinv b_set st2 ind_range))"

text \<open>The stores a thread performs for its range, in its own order.\<close>

definition thread_writes :: "nat list \<Rightarrow> slot_write list" where
  "thread_writes ind_range = concat (map (\<lambda>ind. [WriteNorm ind, WriteLine ind]) ind_range)"

text \<open>
  \<^verbatim>\<open>mooore_penrose_solution_par\<close>, the size of a chunk:
  \<^verbatim>\<open>if niter % pnum == 0: subset = int(niter/pnum) else: subset = niter//pnum + 1\<close>.
\<close>

definition par_subset :: "nat \<Rightarrow> nat \<Rightarrow> nat" where
  "par_subset pnum niter = (if niter mod pnum = 0 then niter div pnum else niter div pnum + 1)"

text \<open>
  \<^verbatim>\<open>if (job_id+1)*subset > niter: job_range = range(job_id*subset, niter)
  else: job_range = range(job_id*subset, (job_id+1)*subset)\<close>.
\<close>

definition job_range :: "nat \<Rightarrow> nat \<Rightarrow> nat \<Rightarrow> nat list" where
  "job_range job_id sub_set niter =
     (if (job_id + 1) * sub_set > niter then [job_id * sub_set..<niter]
      else [job_id * sub_set..<(job_id + 1) * sub_set])"

text \<open>
  The inner loop \<^verbatim>\<open>for i in range(pnum)\<close>: a thread is created for the range of
  \<^verbatim>\<open>job_id\<close>, and \<^verbatim>\<open>job_id\<close> is incremented.
\<close>

fun par_for :: "nat \<Rightarrow> nat \<Rightarrow> nat \<Rightarrow> nat \<Rightarrow> nat list list \<Rightarrow> nat \<times> nat list list" where
  "par_for 0 sub_set niter job_id threads = (job_id, threads)"
| "par_for (Suc i) sub_set niter job_id threads =
     par_for i sub_set niter (job_id + 1) (threads @ [job_range job_id sub_set niter])"

text \<open>The outer loop \<^verbatim>\<open>while job_id*subset < niter\<close>; not returning is \<open>None\<close>.\<close>

partial_function (option) par_while ::
  "nat \<Rightarrow> nat \<Rightarrow> nat \<Rightarrow> nat \<Rightarrow> nat list list \<Rightarrow> nat list list option" where
  "par_while pnum sub_set niter job_id threads =
     (if job_id * sub_set < niter
      then (case par_for pnum sub_set niter job_id threads of
              (job_id', threads') \<Rightarrow> par_while pnum sub_set niter job_id' threads')
      else Some threads)"

text \<open>The ranges of the threads, in the order of their creation; \<^verbatim>\<open>niter % 0\<close> raises.\<close>

definition par_jobs :: "nat \<Rightarrow> nat \<Rightarrow> (error + nat list list) option" where
  "par_jobs pnum niter =
     (if pnum = 0 then Some (Inl ZeroDivisionError)
      else map_option Inr (par_while pnum (par_subset pnum niter) niter 0 []))"

text \<open>
  The threads run until all are joined, their stores interleaved in any order. A thread in
  which a store raises ends there; the others go on.
\<close>

inductive par_run ::
  "matrix \<Rightarrow> matrix \<Rightarrow> matrix \<Rightarrow> slot_write list list \<Rightarrow> bufs \<Rightarrow> bufs \<Rightarrow> bool"
  for W Wpinv b_set where
  joined: "list_all (\<lambda>t. t = []) ts \<Longrightarrow> par_run W Wpinv b_set ts st st"
| step: "i < length ts \<Longrightarrow> ts ! i = w # rest \<Longrightarrow> exec_write W Wpinv b_set w st = Inr st' \<Longrightarrow>
         par_run W Wpinv b_set (ts[i := rest]) st' st'' \<Longrightarrow> par_run W Wpinv b_set ts st st''"
| died: "i < length ts \<Longrightarrow> ts ! i = w # rest \<Longrightarrow> exec_write W Wpinv b_set w st = Inl e \<Longrightarrow>
         par_run W Wpinv b_set (ts[i := []]) st st'' \<Longrightarrow> par_run W Wpinv b_set ts st st''"

text \<open>
  \<^verbatim>\<open>mooore_penrose_solution_par(W, b_set, pnum, niter, intersection_line_set,
  pinv_norm_set)\<close>: the buffers \<open>st'\<close> it can leave, from the buffers \<open>st\<close>.
\<close>

definition mooore_penrose_solution_par ::
  "(matrix \<Rightarrow> matrix) \<Rightarrow> matrix \<Rightarrow> matrix \<Rightarrow> nat \<Rightarrow> nat \<Rightarrow> bufs \<Rightarrow> bufs \<Rightarrow> bool" where
  "mooore_penrose_solution_par pinv W b_set pnum niter st st' =
     (case par_jobs pnum niter of
        Some (Inr jobs) \<Rightarrow> par_run W (pinv W) b_set (map thread_writes jobs) st st'
      | _ \<Rightarrow> False)"

text \<open>
  The inputs of a stage fit: \<open>W\<close> has a row of three entries for each of \<open>m\<close> baselines,
  its pseudo-inverse has the transposed shape, \<open>b_set\<close> has a column for each of
  \<open>niter\<close> candidates, and the buffers were allocated with \<open>niter\<close> slots.
\<close>

definition stage_ok :: "nat \<Rightarrow> nat \<Rightarrow> matrix \<Rightarrow> matrix \<Rightarrow> matrix \<Rightarrow> bool" where
  "stage_ok m niter W Wpinv b_set \<longleftrightarrow>
     is_mat m 3 W \<and> is_mat 3 m Wpinv \<and> is_mat m niter b_set \<and> 0 < m"

definition bufs_ok :: "nat \<Rightarrow> bufs \<Rightarrow> bool" where
  "bufs_ok niter st \<longleftrightarrow>
     length (intersection_line_set st) = niter \<and> length (pinv_norm_set st) = niter"

text \<open>The buffers after the stores of a set have been performed.\<close>

definition written :: "matrix \<Rightarrow> matrix \<Rightarrow> matrix \<Rightarrow> slot_write set \<Rightarrow> bufs \<Rightarrow> bufs" where
  "written W Wpinv b_set ws st =
     \<lparr>intersection_line_set =
        map (\<lambda>k. if WriteLine k \<in> ws then projr (slot_line Wpinv b_set k)
                 else intersection_line_set st ! k) [0..<length (intersection_line_set st)],
      pinv_norm_set =
        map (\<lambda>k. if WriteNorm k \<in> ws then projr (slot_norm W Wpinv b_set k)
                 else pinv_norm_set st ! k) [0..<length (pinv_norm_set st)]\<rparr>"

section \<open>Pruning\<close>

record intersections =
  indexes :: "nat list"
  number :: nat
  permutations :: "int list list"
  integers :: "real list list"

definition dot3 :: "vec3 \<Rightarrow> vec3 \<Rightarrow> real" where
  "dot3 u v = (case u of (a, b, c) \<Rightarrow> case v of (x, y, z) \<Rightarrow> a * x + b * y + c * z)"

text \<open>
  \<^verbatim>\<open>intersections_cal(pinv_norm, PERMS_J, intersection_line, R, **kwargs)\<close>. The
  tolerance is the local \<^verbatim>\<open>mp_tol = 0.1\<close>; the keyword \<^verbatim>\<open>norm\<close> is an optional
  argument. With it the condition is
  \<^verbatim>\<open>(pinv_norm < mp_tol) & (kwargs['norm'] <= 2) & (kwargs['norm'] != 0)\<close>, without
  it \<^verbatim>\<open>pinv_norm < mp_tol\<close>. The entry \<^verbatim>\<open>integers\<close> is the product of the
  transposed \<open>R\<close> with the selected columns.
\<close>

definition intersections_cal ::
  "real list \<Rightarrow> int list list \<Rightarrow> vec3 list \<Rightarrow> vec3 list \<Rightarrow> real list option
     \<Rightarrow> error + intersections" where
  "intersections_cal pinv_norm PERMS_J intersection_line R norm_kw =
     (let mp_tol = 1 / 10;
          cond = (case norm_kw of
                    Some nrm \<Rightarrow>
                      (case broadcast2 (\<and>) (map (\<lambda>r. r < mp_tol) pinv_norm) (map (\<lambda>n. n \<le> 2) nrm) of
                         Inl e \<Rightarrow> Inl e
                       | Inr c \<Rightarrow> broadcast2 (\<and>) c (map (\<lambda>n. n \<noteq> 0) nrm))
                  | None \<Rightarrow> Inr (map (\<lambda>r. r < mp_tol) pinv_norm))
      in case cond of
           Inl e \<Rightarrow> Inl e
         | Inr c \<Rightarrow>
             (let idx = np_where c
              in case take_idx PERMS_J idx of
                   Inl e \<Rightarrow> Inl e
                 | Inr perms \<Rightarrow>
                     (case take_idx intersection_line idx of
                        Inl e \<Rightarrow> Inl e
                      | Inr s \<Rightarrow>
                          Inr \<lparr>indexes = idx, number = length idx, permutations = perms,
                               integers = map (\<lambda>Rj. map (dot3 Rj) s) R\<rparr>)))"

text \<open>
  The driving script: its constant \<^verbatim>\<open>mp_tol = 1e-1\<close>, the norms
  \<^verbatim>\<open>np.transpose(np.sqrt([np.sum(intersection_line ** 2, axis=0)]))\<close>, the selection
  after the first three baselines,
  \<^verbatim>\<open>np.where((pinv_norm < mp_tol) & (intersection_line_norm <= 2) &
  (intersection_line_norm != 0))\<close>, and the selection in the loop over the later
  baselines, \<^verbatim>\<open>np.where(pinv_norm < mp_tol)\<close>.
\<close>

definition mp_tol :: real where
  "mp_tol = 1 / 10"

definition intersection_line_norm :: "vec3 list \<Rightarrow> real list" where
  "intersection_line_norm intersection_line =
     map (\<lambda>(x, y, z). sqrt (x\<^sup>2 + y\<^sup>2 + z\<^sup>2)) intersection_line"

definition intersections3_ind :: "real list \<Rightarrow> vec3 list \<Rightarrow> error + nat list" where
  "intersections3_ind pinv_norm intersection_line =
     (let nrm = intersection_line_norm intersection_line
      in case broadcast2 (\<and>) (map (\<lambda>r. r < mp_tol) pinv_norm) (map (\<lambda>n. n \<le> 2) nrm) of
           Inl e \<Rightarrow> Inl e
         | Inr c \<Rightarrow>
             (case broadcast2 (\<and>) c (map (\<lambda>n. n \<noteq> 0) nrm) of
                Inl e \<Rightarrow> Inl e
              | Inr c' \<Rightarrow> Inr (np_where c')))"

definition intersections_ind_later :: "real list \<Rightarrow> nat list" where
  "intersections_ind_later pinv_norm = np_where (map (\<lambda>r. r < mp_tol) pinv_norm)"

text \<open>
  Pruning as the specification words it, with the tolerance an argument: the positions
  whose residual is below \<open>tol\<close>.
\<close>

definition prune_with_tol :: "real \<Rightarrow> real list \<Rightarrow> nat list" where
  "prune_with_tol tol residuals = filter (\<lambda>p. residuals ! p < tol) [0..<length residuals]"

section \<open>Enumeration of the candidates\<close>

text \<open>
  The driving script, first three baselines:
  \<^verbatim>\<open>iterables3 = [range(1, int(k_length[0])+1), range(1, int(k_length[1])+1),
  range(1, int(k_length[2])+1)]; PERMS_J = list(itertools.product(*iterables3))\<close>.
\<close>

definition PERMS_J_3 :: "real list \<Rightarrow> error + int list list" where
  "PERMS_J_3 k_length =
     (case get k_length 0 of Inl e \<Rightarrow> Inl e | Inr k0 \<Rightarrow>
     (case get k_length 1 of Inl e \<Rightarrow> Inl e | Inr k1 \<Rightarrow>
     (case get k_length 2 of Inl e \<Rightarrow> Inl e | Inr k2 \<Rightarrow>
        Inr (product3 (py_range 1 (py_int k0 + 1)) (py_range 1 (py_int k1 + 1))
               (py_range 1 (py_int k2 + 1))))))"

text \<open>
  \<^verbatim>\<open>permutations_create(permutations_base, intersections_ind, k_length,
  permutation_index)\<close>:
  \<^verbatim>\<open>iterables = [np.array(permutations_base)[intersections_ind[0], :],
  range(1, int(k_length[permutation_index]) + 1)];
  return list(itertools.product(*iterables))\<close>. The same two lines build
  \<^verbatim>\<open>PERMS_J\<close> in the loop of the driving script.
\<close>

definition permutations_create ::
  "int list list \<Rightarrow> nat list \<Rightarrow> real list \<Rightarrow> nat \<Rightarrow> error + (int list \<times> int) list" where
  "permutations_create permutations_base intersections_ind k_length permutation_index =
     (case np_array2 permutations_base of Inl e \<Rightarrow> Inl e | Inr a \<Rightarrow>
     (case take_idx a intersections_ind of Inl e \<Rightarrow> Inl e | Inr rows \<Rightarrow>
     (case get k_length permutation_index of Inl e \<Rightarrow> Inl e | Inr k \<Rightarrow>
        Inr (product2 rows (py_range 1 (py_int k + 1))))))"

text \<open>
  The driving script flattens each pair into the candidate that is evaluated:
  \<^verbatim>\<open>PERMS_J_prime.append(np.hstack((j[0], j[1])))\<close>.
\<close>

definition PERMS_J_prime :: "(int list \<times> int) list \<Rightarrow> int list list" where
  "PERMS_J_prime PERMS_J = map (\<lambda>j. fst j @ [snd j]) PERMS_J"

section \<open>Wave vector and cap filter\<close>

text \<open>\<^verbatim>\<open>np.radians\<close>: degrees to radians.\<close>

definition radians :: "real \<Rightarrow> real" where
  "radians d = d * pi / 180"

text \<open>\<^verbatim>\<open>k0_cal(el0, az0)\<close>: the three components of the wave vector.\<close>

definition k0_cal :: "real \<Rightarrow> real \<Rightarrow> real list" where
  "k0_cal el0 az0 =
     [sin (radians az0) * cos (radians el0),
      cos (radians az0) * cos (radians el0),
      sin (radians el0)]"

text \<open>
  \<^verbatim>\<open>slines_intersections(k0, intersections_ind, intersection_line, cutoff_ph_ang)\<close>:
  \<^verbatim>\<open>cap = np.repeat([[k0[0]], [k0[1]]], repeats=len(intersections_ind), axis=1)
  - intersection_line[0:2, intersections_ind]; cap = np.sqrt(np.sum(cap ** 2, axis=0));
  cap = np.where(cap <= np.sin(cutoff_ph_ang))\<close>. The result holds positions in
  \<^verbatim>\<open>intersections_ind\<close>.
\<close>

definition slines_intersections ::
  "real list \<Rightarrow> nat list \<Rightarrow> vec3 list \<Rightarrow> real \<Rightarrow> error + nat list" where
  "slines_intersections k0 intersections_ind intersection_line cutoff_ph_ang =
     (case get k0 0 of Inl e \<Rightarrow> Inl e | Inr k0x \<Rightarrow>
     (case get k0 1 of Inl e \<Rightarrow> Inl e | Inr k0y \<Rightarrow>
     (case take_idx intersection_line intersections_ind of Inl e \<Rightarrow> Inl e | Inr s \<Rightarrow>
        (let cap = mat_map2 (-) (np_repeat1 [[k0x], [k0y]] (length intersections_ind))
                     [map fst s, map (fst \<circ> snd) s];
             cap = map2 (\<lambda>a b. sqrt (a\<^sup>2 + b\<^sup>2)) (cap ! 0) (cap ! 1)
         in Inr (np_where (map (\<lambda>d. d \<le> sin cutoff_ph_ang) cap))))))"

text \<open>
  The planar distance of the specification between the wave vector and a solution point,
  \<open>||(k0_x, k0_y) - (s_x, s_y)||\<close>.
\<close>

definition planar_dist :: "real list \<Rightarrow> vec3 \<Rightarrow> real" where
  "planar_dist k0 s = sqrt ((k0 ! 0 - fst s)\<^sup>2 + (k0 ! 1 - fst (snd s))\<^sup>2)"

section \<open>Ambiguity distances\<close>

text \<open>The factor \<^verbatim>\<open>np.exp(-1j * 2 * pi * v)\<close>.\<close>

definition steering :: "real \<Rightarrow> complex" where
  "steering v = exp (- \<i> * 2 * of_real pi * of_real v)"

text \<open>
  \<^verbatim>\<open>subgroup_signal_k0 = np.exp(-1j * 2 * pi * (xy[:, 0] * k0[0] + xy[:, 1] * k0[1]))\<close>.
\<close>

definition subgroup_signal_k0 :: "(real \<times> real) list \<Rightarrow> real \<Rightarrow> real \<Rightarrow> complex list" where
  "subgroup_signal_k0 xy k0x k0y =
     map steering (map2 (+) (map (\<lambda>x. x * k0x) (map fst xy)) (map (\<lambda>y. y * k0y) (map snd xy)))"

text \<open>
  \<^verbatim>\<open>subgroup_signal = np.exp(-1j * 2 * pi * (
  np.transpose(np.repeat([xy[:, 0]], repeats=np.shape(k_finds)[1], axis=0)) *
  np.repeat([k_finds[0, :]], repeats=np.shape(xy)[0], axis=0) +
  np.transpose(np.repeat([xy[:, 1]], repeats=np.shape(k_finds)[1], axis=0)) *
  np.repeat([k_finds[1, :]], repeats=np.shape(xy)[0], axis=0)))\<close>, from the first two
  rows of \<^verbatim>\<open>k_finds\<close>.
\<close>

definition subgroup_signal :: "(real \<times> real) list \<Rightarrow> real list list \<Rightarrow> complex list list" where
  "subgroup_signal xy k_finds =
     (let n = length (k_finds ! 0); m = length xy
      in map (map steering)
           (mat_map2 (+)
              (mat_map2 (*) (np_transpose m (np_repeat0 (map fst xy) n)) (np_repeat0 (k_finds ! 0) m))
              (mat_map2 (*) (np_transpose m (np_repeat0 (map snd xy) n)) (np_repeat0 (k_finds ! 1) m))))"

text \<open>
  The three results of \<^verbatim>\<open>explicit\<close>. \<^verbatim>\<open>k_finds = np.vstack((aux1, aux2))\<close>
  has three rows; it is kept as the two rows of \<^verbatim>\<open>aux1\<close>, which are real, and the
  row \<^verbatim>\<open>aux2\<close>, which can hold a value that is not a number.
\<close>

record explicit_out =
  ambiguity_distances_explicit :: "real list"
  ambiguity_normal_explicit :: "complex npval list list"
  k_finds :: "real list list \<times> real npval list"

text \<open>
  \<^verbatim>\<open>explicit(intersection_line, intersections_ind, cap_intersections_of_slines, xy, k0)\<close>:
  \<^verbatim>\<open>s_sel = intersection_line[:, intersections_ind[cap_intersections_of_slines]];
  aux1 = np.repeat([[k0[0]], [k0[1]]], repeats=np.shape(s_sel)[1], axis=1) - s_sel[0:2, :];
  aux2 = np.sqrt(1 - aux1[0, :] ** 2 - aux1[1, :] ** 2)\<close>, then the two signals, the
  norms of the columns of their difference, and the difference divided by the norms.
\<close>

definition explicit ::
  "vec3 list \<Rightarrow> nat list \<Rightarrow> nat list \<Rightarrow> (real \<times> real) list \<Rightarrow> real list \<Rightarrow> error + explicit_out" where
  "explicit intersection_line intersections_ind cap_intersections_of_slines xy k0 =
     (case take_idx intersections_ind cap_intersections_of_slines of Inl e \<Rightarrow> Inl e | Inr idx \<Rightarrow>
     (case take_idx intersection_line idx of Inl e \<Rightarrow> Inl e | Inr s_sel \<Rightarrow>
     (case get k0 0 of Inl e \<Rightarrow> Inl e | Inr k0x \<Rightarrow>
     (case get k0 1 of Inl e \<Rightarrow> Inl e | Inr k0y \<Rightarrow>
        (let n = length s_sel;
             m = length xy;
             aux1 = mat_map2 (-) (np_repeat1 [[k0x], [k0y]] n)
                      [map fst s_sel, map (fst \<circ> snd) s_sel];
             aux2 = map2 (\<lambda>a b. np_sqrt (1 - a\<^sup>2 - b\<^sup>2)) (aux1 ! 0) (aux1 ! 1);
             sig0 = subgroup_signal_k0 xy k0x k0y;
             sig = subgroup_signal xy aux1;
             d = mat_map2 (-) (np_transpose m (np_repeat0 sig0 n)) sig;
             dist = norm_axis0 n d
         in Inr \<lparr>ambiguity_distances_explicit = dist,
                 ambiguity_normal_explicit = mat_map2 np_cdivide d (np_repeat0 dist m),
                 k_finds = (aux1, aux2)\<rparr>)))))"

text \<open>The solution points that the cap positions select.\<close>

definition sel_points :: "vec3 list \<Rightarrow> nat list \<Rightarrow> nat list \<Rightarrow> vec3 list" where
  "sel_points il ind cap = map (\<lambda>p. il ! (ind ! p)) cap"

section \<open>Properties\<close>

subsection \<open>Arrays\<close>

lemma np_where_set: "set (np_where c) = {i. i < length c \<and> c ! i}"
  by (auto simp: np_where_def)

lemma take_idx_Inr:
  "take_idx a idx = Inr s \<Longrightarrow> length s = length idx \<and> (\<forall>p < length idx. idx ! p < length a \<and> s ! p = a ! (idx ! p))"
  by (auto simp: take_idx_def list_all_iff split: if_splits)

lemma map2_replicate_left:
  "map2 f (replicate (length s) k) (map g s) = map (\<lambda>v. f k (g v)) s"
  by (simp add: list_eq_iff_nth_eq)

lemma aux1_rows:
  "mat_map2 (-) (np_repeat1 [[k0x], [k0y]] (length s)) [map fst s, map (fst \<circ> snd) s] =
     [map (\<lambda>v. k0x - fst v) s, map (\<lambda>v. k0y - fst (snd v)) s]"
  by (simp add: mat_map2_def np_repeat1_def map2_replicate_left)

lemma broadcast2_same:
  "length xs = length ys \<Longrightarrow> broadcast2 f xs ys = Inr (map2 f xs ys)"
  by (simp add: broadcast2_def)

lemma np_transpose_replicate:
  "length row = c \<Longrightarrow> np_transpose c (replicate n row) = map (\<lambda>x. replicate n x) row"
  by (auto simp: np_transpose_def list_eq_iff_nth_eq map_replicate_const)

lemma mat_map2_nth:
  "i < length a \<Longrightarrow> i < length b \<Longrightarrow> j < length (a ! i) \<Longrightarrow> j < length (b ! i) \<Longrightarrow>
   mat_map2 f a b ! i ! j = f (a ! i ! j) (b ! i ! j)"
  by (simp add: mat_map2_def)

lemma mat_map2_length: "length (mat_map2 f a b) = min (length a) (length b)"
  by (simp add: mat_map2_def)

lemma list_update_as_map:
  "xs[i := v] = map (\<lambda>k. if k = i then v else xs ! k) [0..<length xs]"
  by (rule nth_equalityI) (simp_all add: nth_list_update)

lemma upt_split: "a \<le> b \<Longrightarrow> [0..<a] @ [a..<b] = [0..<b]"
  using upt_add_eq_append[of 0 a "b - a"] by simp

lemma sum_list_upt: "(\<Sum>k\<leftarrow>[0..<n]. f k) = (\<Sum>k = 0..<n. f k)"
  by (simp add: interv_sum_list_conv_sum_set_nat)

subsection \<open>Wave vector\<close>

text \<open>
  C10. For every elevation and azimuth the vector returned by \<open>k0_cal\<close> has three
  components and the sum of their squares is 1.
\<close>

theorem k0_cal_unit:
  "length (k0_cal el0 az0) = 3 \<and>
   (k0_cal el0 az0 ! 0)\<^sup>2 + (k0_cal el0 az0 ! 1)\<^sup>2 + (k0_cal el0 az0 ! 2)\<^sup>2 = 1"
proof -
  let ?a = "radians az0" and ?e = "radians el0"
  have "(sin ?a * cos ?e)\<^sup>2 + (cos ?a * cos ?e)\<^sup>2 + (sin ?e)\<^sup>2
        = ((sin ?a)\<^sup>2 + (cos ?a)\<^sup>2) * (cos ?e)\<^sup>2 + (sin ?e)\<^sup>2"
    by (simp only: power_mult_distrib distrib_right)
  also have "\<dots> = 1"
    by simp
  finally show ?thesis
    by (simp add: k0_cal_def)
qed

subsection \<open>Geometry\<close>

lemma linCoeff_entry:
  "j < length R \<Longrightarrow>
   linCoeff_cal R ! j = (if norm3 (R ! j) = 0 then NaN else Fin (norm3 (R ! j)))"
  by (cases "R ! j") (auto simp: linCoeff_cal_def norm3_def np_divide_def real_div_sqrt
        real_sqrt_eq_zero_cancel_iff)

lemma norm3_simps: "norm3 (x, y, z) = sqrt (x\<^sup>2 + y\<^sup>2 + z\<^sup>2)"
  by (simp add: norm3_def)

lemma norm3_pos_iff: "0 < norm3 v \<longleftrightarrow> norm3 v \<noteq> 0"
  by (cases v) (auto simp: norm3_def less_le)

text \<open>
  C2, as the code has it. Building the geometry raises no geometry error. \<open>R_cal\<close>
  returns the columns of the first \<open>sensor_groups\<close> coordinates for any number of
  baselines the coordinates provide, fewer than three included. \<open>linCoeff_cal\<close> returns
  one coefficient for each baseline: the norm of the baseline, and the value that is not a
  number (the quotient 0/0) for a baseline of zero norm.
\<close>

theorem geometry_no_error:
  "(sensor_groups \<le> length xycoords \<longrightarrow>
      R_cal sensor_groups xycoords =
        Inr (map (\<lambda>(x, y). (x, y, 0)) (take sensor_groups xycoords))) \<and>
   length (linCoeff_cal R) = length R \<and>
   (\<forall>j < length R. linCoeff_cal R ! j =
      (if norm3 (R ! j) = 0 then NaN else Fin (norm3 (R ! j))))"
  using linCoeff_entry by (auto simp: R_cal_def Let_def linCoeff_cal_def)

text \<open>
  C2, an instance: two baselines, the first of zero norm.
\<close>

theorem geometry_no_error_witness:
  "(2 :: nat) \<le> length [(0, 0), (1, 0), (5, 5 :: real)] \<and>
   R_cal 2 [(0, 0), (1, 0), (5, 5)] = Inr [(0, 0, 0), (1, 0, 0)] \<and>
   linCoeff_cal [(0, 0, 0), (1, 0, 0)] ! 0 = NaN \<and>
   linCoeff_cal [(0, 0, 0), (1, 0, 0)] ! 1 = Fin 1"
proof -
  have h: "(2 :: nat) \<le> length [(0, 0), (1, 0), (5, 5 :: real)]" by simp
  note g = geometry_no_error[of 2 "[(0, 0), (1, 0), (5, 5)]" "[(0, 0, 0), (1, 0, 0)]"]
  from g h have r: "R_cal 2 [(0, 0), (1, 0), (5, 5)] = Inr [(0, 0, 0), (1, 0, 0)]"
    by simp
  note a = conjunct2[OF conjunct2[OF g]]
  from a[rule_format, of 0] a[rule_format, of 1] h r
  show ?thesis
    by (simp add: norm3_simps)
qed

text \<open>
  C2 as stated fails: with two baselines, one of them of zero norm, both functions return
  a value, and the coefficient of the zero baseline is not a number.
\<close>

theorem geometry_error_counterexample:
  "R_cal 2 [(0, 0), (1, 0), (5, 5)] = Inr [(0, 0, 0), (1, 0, 0)] \<and>
   linCoeff_cal [(0, 0, 0), (1, 0, 0)] = [NaN, Fin 1]"
  by (simp add: R_cal_def linCoeff_cal_def np_divide_def)

subsection \<open>Cap filter\<close>

lemma slines_Inr:
  assumes "slines_intersections k0 ind il th = Inr cap"
  shows "cap = filter (\<lambda>p. planar_dist k0 (il ! (ind ! p)) \<le> sin th) [0..<length ind]"
proof -
  from assms obtain s where s: "take_idx il ind = Inr s"
    by (auto simp: slines_intersections_def split: sum.splits)
  from take_idx_Inr[OF s] have ls: "length s = length ind"
    and sp: "\<And>p. p < length ind \<Longrightarrow> s ! p = il ! (ind ! p)" by auto
  from assms s have "cap = np_where (map (\<lambda>d. d \<le> sin th)
        (map2 (\<lambda>a b. sqrt (a\<^sup>2 + b\<^sup>2))
          (map (\<lambda>v. k0 ! 0 - fst v) s) (map (\<lambda>v. k0 ! 1 - fst (snd v)) s)))"
    by (auto simp: slines_intersections_def get_def Let_def ls[symmetric] aux1_rows
        split: if_splits)
  then show ?thesis
    unfolding np_where_def
    by (simp only:) (rule filter_cong, auto simp: ls sp planar_dist_def)
qed

lemma slines_cap_props:
  assumes "slines_intersections k0 ind il th = Inr cap"
  shows "list_all (\<lambda>p. p < length ind) cap"
    and "list_all (\<lambda>p. ind ! p < length il) cap"
    and "2 \<le> length k0"
    and "list_all (\<lambda>p. planar_dist k0 (il ! (ind ! p)) \<le> sin th) cap"
proof -
  from assms obtain s where s: "take_idx il ind = Inr s" and k: "1 < length k0"
    by (auto simp: slines_intersections_def get_def Let_def split: sum.splits if_splits)
  from k show "2 \<le> length k0" by simp
  have cap: "cap = filter (\<lambda>p. planar_dist k0 (il ! (ind ! p)) \<le> sin th) [0..<length ind]"
    by (rule slines_Inr[OF assms])
  show "list_all (\<lambda>p. p < length ind) cap"
    by (simp add: cap list_all_iff)
  from take_idx_Inr[OF s] show "list_all (\<lambda>p. ind ! p < length il) cap"
    by (simp add: cap list_all_iff)
  show "list_all (\<lambda>p. planar_dist k0 (il ! (ind ! p)) \<le> sin th) cap"
    by (simp add: cap list_all_iff)
qed

text \<open>
  C9. The cap filter returns exactly the positions of the surviving solution points whose
  planar distance from the wave vector is at most the sine of the cutoff, in ascending
  order; it returns a result whenever the wave vector has two components and the
  survivors are columns of the buffer. With the cutoff \<open>pi / 2\<close> these are the points at
  planar distance at most 1, with the cutoff 0 the points whose first two components are
  those of the wave vector.
\<close>

theorem cap_filter_exact:
  "(slines_intersections k0 ind il th = Inr cap \<longrightarrow>
      cap = filter (\<lambda>p. planar_dist k0 (il ! (ind ! p)) \<le> sin th) [0..<length ind]) \<and>
   (2 \<le> length k0 \<and> list_all (\<lambda>i. i < length il) ind \<longrightarrow>
      (\<exists>c. slines_intersections k0 ind il th = Inr c)) \<and>
   (slines_intersections k0 ind il (pi / 2) = Inr cap1 \<longrightarrow>
      set cap1 = {p. p < length ind \<and> planar_dist k0 (il ! (ind ! p)) \<le> 1}) \<and>
   (slines_intersections k0 ind il 0 = Inr cap0 \<longrightarrow>
      set cap0 = {p. p < length ind \<and> k0 ! 0 = fst (il ! (ind ! p)) \<and>
                      k0 ! 1 = fst (snd (il ! (ind ! p)))})"
proof (intro conjI impI)
  assume "slines_intersections k0 ind il th = Inr cap"
  then show "cap = filter (\<lambda>p. planar_dist k0 (il ! (ind ! p)) \<le> sin th) [0..<length ind]"
    by (rule slines_Inr)
next
  assume a: "2 \<le> length k0 \<and> list_all (\<lambda>i. i < length il) ind"
  then have "0 < length k0" "1 < length k0" by linarith+
  with a show "\<exists>c. slines_intersections k0 ind il th = Inr c"
    by (simp add: slines_intersections_def get_def take_idx_def mat_map2_def np_repeat1_def Let_def del: length_greater_0_conv)
next
  assume "slines_intersections k0 ind il (pi / 2) = Inr cap1"
  from slines_Inr[OF this]
  show "set cap1 = {p. p < length ind \<and> planar_dist k0 (il ! (ind ! p)) \<le> 1}"
    by auto
next
  assume "slines_intersections k0 ind il 0 = Inr cap0"
  from slines_Inr[OF this]
  have "set cap0 = {p. p < length ind \<and> planar_dist k0 (il ! (ind ! p)) \<le> 0}"
    by auto
  moreover have "planar_dist k0 s \<le> 0 \<longleftrightarrow> k0 ! 0 = fst s \<and> k0 ! 1 = fst (snd s)" for s
  proof -
    have "planar_dist k0 s \<le> 0 \<longleftrightarrow> (k0 ! 0 - fst s)\<^sup>2 + (k0 ! 1 - fst (snd s))\<^sup>2 = 0"
      unfolding planar_dist_def
      by (metis real_sqrt_le_0_iff sum_power2_ge_zero order_antisym order_refl)
    then show ?thesis
      by (simp add: sum_power2_eq_zero_iff del: One_nat_def)
  qed
  ultimately show "set cap0 = {p. p < length ind \<and> k0 ! 0 = fst (il ! (ind ! p)) \<and>
                      k0 ! 1 = fst (snd (il ! (ind ! p)))}"
    by simp
qed

text \<open>
  C9, an instance: two survivors, at planar distance 2 and 0 from the wave vector.
\<close>

theorem cap_filter_exact_witness:
  "slines_intersections [0, 1, 0] [1, 0] [(0, 1, 5), (2, 1, 0)] (pi / 2) = Inr [1] \<and>
   [1] = filter (\<lambda>p. planar_dist [0, 1, 0] ([(0, 1, 5), (2, 1, 0)] ! ([1, 0] ! p)) \<le> sin (pi / 2))
           [0..<length [1, 0 :: nat]] \<and>
   set [1 :: nat] = {p. p < length [1, 0 :: nat] \<and>
       planar_dist [0, 1, 0] ([(0, 1, 5), (2, 1, 0)] ! ([1, 0] ! p)) \<le> 1} \<and>
   slines_intersections [0, 1, 0] [1, 0] [(0, 1, 5), (2, 1, 0)] 0 = Inr [1]"
proof -
  have h: "slines_intersections [0, 1, 0] [1, 0] [(0, 1, 5), (2, 1, 0)] (pi / 2) = Inr [1]"
    by (simp add: slines_intersections_def get_def take_idx_def mat_map2_def np_repeat1_def np_where_def Let_def)
  have h0: "slines_intersections [0, 1, 0] [1, 0] [(0, 1, 5), (2, 1, 0)] 0 = Inr [1]"
    by (simp add: slines_intersections_def get_def take_idx_def mat_map2_def np_repeat1_def np_where_def Let_def)
  from h h0 cap_filter_exact[of "[0, 1, 0]" "[1, 0]" "[(0, 1, 5), (2, 1, 0)]" "pi / 2" "[1]" "[1]" "[1]"]
  show ?thesis by simp
qed

subsection \<open>Pruning\<close>

lemma intersection_line_norm_nth:
  "p < length il \<Longrightarrow> intersection_line_norm il ! p = norm3 (il ! p)"
  by (cases "il ! p") (simp add: intersection_line_norm_def norm3_def)

lemma seed_filter:
  assumes "length pinv_norm = length il"
  shows "intersections3_ind pinv_norm il =
      Inr (filter (\<lambda>p. pinv_norm ! p < mp_tol \<and> 0 < norm3 (il ! p) \<and> norm3 (il ! p) \<le> 2)
             [0..<length il])"
proof -
  have l: "length (intersection_line_norm il) = length il"
    by (simp add: intersection_line_norm_def)
  show ?thesis
    unfolding intersections3_ind_def Let_def
    apply (simp add: broadcast2_same assms l np_where_def)
    apply (rule filter_cong)
     apply simp
    apply (auto simp: assms l intersection_line_norm_nth norm3_pos_iff)
    done
qed

lemma later_filter:
  "intersections_ind_later pinv_norm = filter (\<lambda>p. pinv_norm ! p < mp_tol) [0..<length pinv_norm]"
  unfolding intersections_ind_later_def np_where_def
  by (rule filter_cong) auto

lemma cal_no_norm:
  assumes "intersections_cal pinv_norm PERMS_J il R None = Inr r"
  shows "indexes r = filter (\<lambda>p. pinv_norm ! p < 1 / 10) [0..<length pinv_norm]"
proof -
  from assms have "indexes r = np_where (map (\<lambda>r. r < 1 / 10) pinv_norm)"
    by (auto simp: intersections_cal_def Let_def split: sum.splits)
  also have "\<dots> = filter (\<lambda>p. pinv_norm ! p < 1 / 10) [0..<length pinv_norm]"
    unfolding np_where_def by (rule filter_cong) auto
  finally show ?thesis .
qed

lemma cal_with_norm:
  assumes "intersections_cal pinv_norm PERMS_J il R (Some nrm) = Inr r"
    and "length nrm = length pinv_norm"
  shows "indexes r = filter (\<lambda>p. pinv_norm ! p < 1 / 10 \<and> nrm ! p \<le> 2 \<and> nrm ! p \<noteq> 0)
                       [0..<length pinv_norm]"
proof -
  from assms have "indexes r = np_where (map2 (\<and>) (map2 (\<and>) (map (\<lambda>r. r < 1 / 10) pinv_norm)
        (map (\<lambda>n. n \<le> 2) nrm)) (map (\<lambda>n. n \<noteq> 0) nrm))"
    by (auto simp: intersections_cal_def Let_def broadcast2_same split: sum.splits)
  also have "\<dots> = filter (\<lambda>p. pinv_norm ! p < 1 / 10 \<and> nrm ! p \<le> 2 \<and> nrm ! p \<noteq> 0)
                       [0..<length pinv_norm]"
    unfolding np_where_def by (rule filter_cong) (auto simp: assms(2))
  finally show ?thesis .
qed

text \<open>
  C3. After the first three baselines a candidate survives if and only if its residual is
  below the tolerance and the norm of its solution is greater than 0 and at most 2; in
  the loop over the later baselines it survives if and only if its residual is below the
  tolerance. \<open>intersections_cal\<close> selects in the same two ways, with the norms of the
  solutions as its keyword argument and without it, and returns a result when its inputs
  hold an entry for each candidate.
\<close>

theorem pruning_predicate:
  "(length pinv_norm = length il \<longrightarrow>
      (\<exists>ix. intersections3_ind pinv_norm il = Inr ix \<and>
         (\<forall>p. p \<in> set ix \<longleftrightarrow>
            p < length il \<and> pinv_norm ! p < mp_tol \<and> 0 < norm3 (il ! p) \<and> norm3 (il ! p) \<le> 2))) \<and>
   (\<forall>p. p \<in> set (intersections_ind_later pinv_norm) \<longleftrightarrow>
      p < length pinv_norm \<and> pinv_norm ! p < mp_tol) \<and>
   (length pinv_norm = length il \<longrightarrow>
    intersections_cal pinv_norm PERMS_J il R (Some (intersection_line_norm il)) = Inr r3 \<longrightarrow>
      (\<forall>p. p \<in> set (indexes r3) \<longleftrightarrow>
         p < length il \<and> pinv_norm ! p < mp_tol \<and> 0 < norm3 (il ! p) \<and> norm3 (il ! p) \<le> 2)) \<and>
   (intersections_cal pinv_norm PERMS_J il R None = Inr r \<longrightarrow>
      (\<forall>p. p \<in> set (indexes r) \<longleftrightarrow> p < length pinv_norm \<and> pinv_norm ! p < mp_tol)) \<and>
   (length PERMS_J = length pinv_norm \<and> length il = length pinv_norm \<longrightarrow>
      (\<exists>r. intersections_cal pinv_norm PERMS_J il R None = Inr r) \<and>
      (\<exists>r. intersections_cal pinv_norm PERMS_J il R (Some (intersection_line_norm il)) = Inr r))"
proof (intro conjI impI allI)
  assume l: "length PERMS_J = length pinv_norm \<and> length il = length pinv_norm"
  have "list_all (\<lambda>i. i < length pinv_norm) (np_where (map (\<lambda>r. r < 1 / 10) pinv_norm))"
    by (simp add: list_all_iff np_where_set)
  with l show "\<exists>r. intersections_cal pinv_norm PERMS_J il R None = Inr r"
    by (simp add: intersections_cal_def Let_def take_idx_def)
next
  assume l: "length PERMS_J = length pinv_norm \<and> length il = length pinv_norm"
  let ?c = "map2 (\<and>) (map2 (\<and>) (map (\<lambda>r. r < 1 / 10) pinv_norm)
              (map (\<lambda>n. n \<le> 2) (intersection_line_norm il)))
              (map (\<lambda>n. n \<noteq> 0) (intersection_line_norm il))"
  have ln: "length (intersection_line_norm il) = length pinv_norm"
    using l by (simp add: intersection_line_norm_def)
  have "list_all (\<lambda>i. i < length pinv_norm) (np_where ?c)"
    by (simp add: list_all_iff np_where_set ln)
  with l ln show "\<exists>r. intersections_cal pinv_norm PERMS_J il R
      (Some (intersection_line_norm il)) = Inr r"
    by (simp add: intersections_cal_def Let_def take_idx_def broadcast2_same)
next
  assume l: "length pinv_norm = length il"
  show "\<exists>ix. intersections3_ind pinv_norm il = Inr ix \<and>
         (\<forall>p. p \<in> set ix \<longleftrightarrow>
            p < length il \<and> pinv_norm ! p < mp_tol \<and> 0 < norm3 (il ! p) \<and> norm3 (il ! p) \<le> 2)"
    unfolding seed_filter[OF l] by auto
next
  fix p
  show "p \<in> set (intersections_ind_later pinv_norm) \<longleftrightarrow>
      p < length pinv_norm \<and> pinv_norm ! p < mp_tol"
    unfolding later_filter by auto
next
  fix p
  assume l: "length pinv_norm = length il"
    and c: "intersections_cal pinv_norm PERMS_J il R (Some (intersection_line_norm il)) = Inr r3"
  have ln: "length (intersection_line_norm il) = length pinv_norm"
    by (simp add: intersection_line_norm_def l)
  show "p \<in> set (indexes r3) \<longleftrightarrow>
         p < length il \<and> pinv_norm ! p < mp_tol \<and> 0 < norm3 (il ! p) \<and> norm3 (il ! p) \<le> 2"
    unfolding cal_with_norm[OF c ln]
    by (auto simp: l mp_tol_def intersection_line_norm_nth norm3_pos_iff)
next
  fix p
  assume "intersections_cal pinv_norm PERMS_J il R None = Inr r"
  from cal_no_norm[OF this]
  show "p \<in> set (indexes r) \<longleftrightarrow> p < length pinv_norm \<and> pinv_norm ! p < mp_tol"
    by (auto simp: mp_tol_def)
qed

text \<open>
  C3, an instance: four candidates with solutions of norm 0, 1, 3 and 1, the last one with
  residual 1.
\<close>

theorem pruning_predicate_witness:
  "length [0, 0, 0, 1 :: real] = length [(0, 0, 0), (0, 0, 1), (0, 0, 3), (0, 0, 1 :: real)] \<and>
   length [[1], [2], [3], [4 :: int]] = length [0, 0, 0, 1 :: real] \<and>
   intersections3_ind [0, 0, 0, 1] [(0, 0, 0), (0, 0, 1), (0, 0, 3), (0, 0, 1)] = Inr [1] \<and>
   intersections_ind_later [0, 0, 0, 1] = [0, 1, 2] \<and>
   map_sum id indexes (intersections_cal [0, 0, 0, 1] [[1], [2], [3], [4]]
      [(0, 0, 0), (0, 0, 1), (0, 0, 3), (0, 0, 1)] []
      (Some (intersection_line_norm [(0, 0, 0), (0, 0, 1), (0, 0, 3), (0, 0, 1)]))) = Inr [1] \<and>
   map_sum id indexes (intersections_cal [0, 0, 0, 1] [[1], [2], [3], [4]]
      [(0, 0, 0), (0, 0, 1), (0, 0, 3), (0, 0, 1)] [] None) = Inr [0, 1, 2] \<and>
   (1 \<in> set [1 :: nat] \<longleftrightarrow> 1 < length [(0, 0, 0), (0, 0, 1), (0, 0, 3), (0, 0, 1 :: real)] \<and>
      [0, 0, 0, 1 :: real] ! 1 < mp_tol \<and>
      0 < norm3 ([(0, 0, 0), (0, 0, 1), (0, 0, 3), (0, 0, 1)] ! 1) \<and>
      norm3 ([(0, 0, 0), (0, 0, 1), (0, 0, 3), (0, 0, 1)] ! 1) \<le> 2)"
proof -
  let ?pn = "[0, 0, 0, 1 :: real]"
  let ?il = "[(0, 0, 0), (0, 0, 1), (0, 0, 3), (0, 0, 1 :: real)]"
  let ?pj = "[[1], [2], [3], [4 :: int]]"
  have l: "length ?pn = length ?il" by simp
  have s: "intersections3_ind ?pn ?il = Inr [1]"
    by (simp add: intersections3_ind_def intersection_line_norm_def broadcast2_def mp_tol_def
        np_where_def Let_def)
  have a: "intersections_cal ?pn ?pj ?il [] (Some (intersection_line_norm ?il)) =
      Inr \<lparr>indexes = [1], number = 1, permutations = [[2]], integers = []\<rparr>"
    by (simp add: intersections_cal_def intersection_line_norm_def broadcast2_def
        np_where_def take_idx_def Let_def)
  have b: "intersections_cal ?pn ?pj ?il [] None =
      Inr \<lparr>indexes = [0, 1, 2], number = 3, permutations = [[1], [2], [3]], integers = []\<rparr>"
    by (simp add: intersections_cal_def np_where_def take_idx_def Let_def)
  have c: "intersections_ind_later ?pn = [0, 1, 2]"
    by (simp add: intersections_ind_later_def mp_tol_def np_where_def)
  from pruning_predicate[of ?pn ?il ?pj "[]"
      "\<lparr>indexes = [1], number = 1, permutations = [[2]], integers = []\<rparr>"
      "\<lparr>indexes = [0, 1, 2], number = 3, permutations = [[1], [2], [3]], integers = []\<rparr>"]
    l s a b c
  show ?thesis
    by (simp add: mp_tol_def norm3_simps)
qed

text \<open>
  C8, as the code has it. The tolerance of the pruning step is the constant 0.1 inside
  \<open>intersections_cal\<close>, which has no argument for it: the residuals are compared with
  0.1, and with the keyword argument the two conditions on the norm are added.
\<close>

theorem tolerance_fixed:
  "(intersections_cal pinv_norm PERMS_J il R None = Inr r \<longrightarrow>
      indexes r = prune_with_tol (1 / 10) pinv_norm) \<and>
   (length nrm = length pinv_norm \<longrightarrow>
    intersections_cal pinv_norm PERMS_J il R (Some nrm) = Inr r' \<longrightarrow>
      indexes r' = filter (\<lambda>p. nrm ! p \<le> 2 \<and> nrm ! p \<noteq> 0) (prune_with_tol (1 / 10) pinv_norm))"
proof (intro conjI impI)
  assume "intersections_cal pinv_norm PERMS_J il R None = Inr r"
  from cal_no_norm[OF this] show "indexes r = prune_with_tol (1 / 10) pinv_norm"
    by (simp add: prune_with_tol_def)
next
  assume l: "length nrm = length pinv_norm"
    and a: "intersections_cal pinv_norm PERMS_J il R (Some nrm) = Inr r'"
  show "indexes r' = filter (\<lambda>p. nrm ! p \<le> 2 \<and> nrm ! p \<noteq> 0) (prune_with_tol (1 / 10) pinv_norm)"
    unfolding cal_with_norm[OF a l] prune_with_tol_def filter_filter
    by (rule filter_cong) auto
qed

text \<open>
  C8, an instance: residuals 0.15 and 0.05.
\<close>

theorem tolerance_fixed_witness:
  "intersections_cal [3 / 20, 1 / 20] [[1], [2]] [(0, 0, 1), (0, 0, 1)] [] None =
     Inr \<lparr>indexes = [1], number = 1, permutations = [[2]], integers = []\<rparr> \<and>
   indexes \<lparr>indexes = [1], number = 1, permutations = [[2]], integers = []\<rparr> =
     prune_with_tol (1 / 10) [3 / 20, 1 / 20] \<and>
   length [1, 1 :: real] = length [3 / 20, 1 / 20 :: real] \<and>
   intersections_cal [3 / 20, 1 / 20] [[1], [2]] [(0, 0, 1), (0, 0, 1)] [] (Some [1, 1]) =
     Inr \<lparr>indexes = [1], number = 1, permutations = [[2]], integers = []\<rparr>"
proof -
  let ?r = "\<lparr>indexes = [1], number = 1, permutations = [[2 :: int]], integers = []\<rparr>"
  have a: "intersections_cal [3 / 20, 1 / 20] [[1], [2]] [(0, 0, 1), (0, 0, 1)] [] None = Inr ?r"
    by (simp add: intersections_cal_def np_where_def take_idx_def Let_def)
  have b: "intersections_cal [3 / 20, 1 / 20] [[1], [2]] [(0, 0, 1), (0, 0, 1)] [] (Some [1, 1]) = Inr ?r"
    by (simp add: intersections_cal_def np_where_def take_idx_def broadcast2_def Let_def)
  from a b tolerance_fixed[of "[3 / 20, 1 / 20]" "[[1], [2]]" "[(0, 0, 1), (0, 0, 1)]" "[]" ?r "[1, 1]" ?r]
  show ?thesis by simp
qed

text \<open>
  C8 as stated fails: a candidate of residual 0.15 is rejected by the code, while pruning
  with a configured tolerance of 0.2 keeps it.
\<close>

theorem tolerance_not_configurable:
  "map_sum id indexes (intersections_cal [3 / 20] [[1, 1, 1]] [(0, 0, 1)] [] None) = Inr [] \<and>
   prune_with_tol (1 / 5) [3 / 20] = [0]"
  by (simp add: intersections_cal_def np_where_def take_idx_def prune_with_tol_def Let_def)

subsection \<open>Enumeration of the candidates\<close>

lemma length_product2: "length (product2 xs ys) = length xs * length ys"
  by (induction xs) (simp_all add: product2_def)

lemma product2_nth:
  "p < length xs \<Longrightarrow> q < length ys \<Longrightarrow> product2 xs ys ! (p * length ys + q) = (xs ! p, ys ! q)"
proof (induction xs arbitrary: p)
  case Nil
  then show ?case by simp
next
  case (Cons x xs)
  show ?case
  proof (cases p)
    case 0
    with Cons.prems show ?thesis
      by (simp add: product2_def nth_append)
  next
    case (Suc p')
    with Cons.prems have "p' < length xs" by simp
    from Cons.IH[OF this Cons.prems(2)] Suc show ?thesis
      by (simp add: product2_def nth_append add.assoc)
  qed
qed

lemma product3_length: "length (product3 xs ys zs) = length xs * length ys * length zs"
proof -
  have "length (concat (map (\<lambda>y. map (\<lambda>z. [x, y, z]) zs) ys)) = length ys * length zs" for x
    by (induction ys) simp_all
  then show ?thesis
    by (induction xs) (simp_all add: product3_def algebra_simps)
qed

lemma product3_set:
  "set (product3 xs ys zs) = {[x, y, z] | x y z. x \<in> set xs \<and> y \<in> set ys \<and> z \<in> set zs}"
  by (auto simp: product3_def)

lemma product3_distinct:
  assumes "distinct xs" "distinct ys" "distinct zs"
  shows "distinct (product3 xs ys zs)"
proof -
  have inner: "distinct (concat (map (\<lambda>y. map (\<lambda>z. [x, y, z]) zs) ys))" for x
    using assms(2)
    by (induction ys) (auto simp: distinct_map inj_on_def assms(3))
  show ?thesis
    unfolding product3_def using assms(1)
    by (induction xs) (auto simp: inner)
qed

lemma py_range_1: "py_range 1 (k + 1) = [1..k]"
  by (simp add: py_range_def)

text \<open>
  C5. Both enumerations return a list when their inputs are in range. The candidates of
  the first three baselines are the triples of the full product of
  the three offset ranges, each once, so their number is the product of the three lengths.
  At a later baseline \<open>i\<close>, with \<open>k\<close> offsets, the list of candidates has one entry for
  each pair of a survivor and an offset: the entry at position \<open>p * k + q\<close> is the
  survivor at position \<open>p\<close> paired with the offset \<open>1 + q\<close>, and the candidate evaluated
  is that survivor extended by that offset.
\<close>

theorem enumeration_exact:
  "(3 \<le> length k_length \<longrightarrow> (\<exists>ps. PERMS_J_3 k_length = Inr ps)) \<and>
   (base \<noteq> [] \<and> list_all (\<lambda>r. length r = length (hd base)) base \<and>
    list_all (\<lambda>p. p < length base) ind \<and> i < length k_length \<longrightarrow>
      (\<exists>pj. permutations_create base ind k_length i = Inr pj)) \<and>
   (PERMS_J_3 k_length = Inr ps \<longrightarrow>
      set ps = {[a, b, c] | a b c.
                  1 \<le> a \<and> a \<le> py_int (k_length ! 0) \<and>
                  1 \<le> b \<and> b \<le> py_int (k_length ! 1) \<and>
                  1 \<le> c \<and> c \<le> py_int (k_length ! 2)} \<and>
      distinct ps \<and>
      length ps = nat (py_int (k_length ! 0)) * nat (py_int (k_length ! 1)) *
                  nat (py_int (k_length ! 2))) \<and>
   (permutations_create base ind k_length i = Inr pj \<longrightarrow>
      length pj = length ind * nat (py_int (k_length ! i)) \<and>
      (\<forall>p < length ind. \<forall>q < nat (py_int (k_length ! i)).
         pj ! (p * nat (py_int (k_length ! i)) + q) = (base ! (ind ! p), 1 + int q) \<and>
         PERMS_J_prime pj ! (p * nat (py_int (k_length ! i)) + q) = base ! (ind ! p) @ [1 + int q]))"
proof (intro conjI impI)
  assume "3 \<le> length k_length"
  then have "0 < length k_length" "1 < length k_length" "2 < length k_length"
    by linarith+
  then show "\<exists>ps. PERMS_J_3 k_length = Inr ps"
    by (simp add: PERMS_J_3_def get_def del: length_greater_0_conv)
next
  assume "base \<noteq> [] \<and> list_all (\<lambda>r. length r = length (hd base)) base \<and>
    list_all (\<lambda>p. p < length base) ind \<and> i < length k_length"
  then show "\<exists>pj. permutations_create base ind k_length i = Inr pj"
    by (simp add: permutations_create_def np_array2_def take_idx_def get_def)
next
  assume a: "PERMS_J_3 k_length = Inr ps"
  then have ps: "ps = product3 [1..py_int (k_length ! 0)] [1..py_int (k_length ! 1)]
                        [1..py_int (k_length ! 2)]"
    by (auto simp: PERMS_J_3_def get_def py_range_1 split: if_splits)
  show "set ps = {[a, b, c] | a b c.
                  1 \<le> a \<and> a \<le> py_int (k_length ! 0) \<and>
                  1 \<le> b \<and> b \<le> py_int (k_length ! 1) \<and>
                  1 \<le> c \<and> c \<le> py_int (k_length ! 2)}"
    unfolding ps product3_set by auto
  show "distinct ps"
    unfolding ps by (rule product3_distinct) simp_all
  show "length ps = nat (py_int (k_length ! 0)) * nat (py_int (k_length ! 1)) *
                  nat (py_int (k_length ! 2))"
    unfolding ps product3_length by simp
next
  assume a: "permutations_create base ind k_length i = Inr pj"
  let ?k = "py_int (k_length ! i)"
  from a obtain rows where rows: "take_idx base ind = Inr rows"
    and pj: "pj = product2 rows [1..?k]"
    by (auto simp: permutations_create_def np_array2_def get_def py_range_1
        split: sum.splits if_splits)
  from take_idx_Inr[OF rows] have lr: "length rows = length ind"
    and rp: "\<And>p. p < length ind \<Longrightarrow> rows ! p = base ! (ind ! p)"
    by auto
  show "length pj = length ind * nat ?k"
    by (simp add: pj length_product2 lr)
  show "\<forall>p < length ind. \<forall>q < nat ?k.
         pj ! (p * nat ?k + q) = (base ! (ind ! p), 1 + int q) \<and>
         PERMS_J_prime pj ! (p * nat ?k + q) = base ! (ind ! p) @ [1 + int q]"
  proof (intro allI impI)
    fix p q assume p: "p < length ind" and q: "q < nat ?k"
    have "product2 rows [1..?k] ! (p * length [1..?k] + q) = (rows ! p, [1..?k] ! q)"
      by (rule product2_nth) (use p q lr in simp_all)
    moreover have "[1..?k] ! q = 1 + int q"
      using q by (simp add: nth_upto)
    ultimately have e: "pj ! (p * nat ?k + q) = (base ! (ind ! p), 1 + int q)"
      by (simp add: pj rp[OF p])
    have "p * nat ?k + q < length ind * nat ?k"
    proof -
      have "p * nat ?k + q < p * nat ?k + nat ?k" using q by simp
      also have "\<dots> = Suc p * nat ?k" by simp
      also have "\<dots> \<le> length ind * nat ?k"
        using p by (intro mult_le_mono1) simp
      finally show ?thesis .
    qed
    then have "p * nat ?k + q < length pj"
      by (simp add: pj length_product2 lr)
    then have "PERMS_J_prime pj ! (p * nat ?k + q) =
        fst (pj ! (p * nat ?k + q)) @ [snd (pj ! (p * nat ?k + q))]"
      by (simp add: PERMS_J_prime_def)
    with e show "pj ! (p * nat ?k + q) = (base ! (ind ! p), 1 + int q) \<and>
         PERMS_J_prime pj ! (p * nat ?k + q) = base ! (ind ! p) @ [1 + int q]"
      by simp
  qed
qed

lemma upto_1_2: "[1..2] = [1, 2 :: int]"
  by (simp add: upto.simps)

lemma upto_1_1: "[1..1] = [1 :: int]"
  by (simp add: upto.simps)

lemma py_int_numeral [simp]: "py_int 1 = 1" "py_int 2 = 2"
  by (simp_all add: py_int_def)

text \<open>
  C5, an instance: offset counts 2, 1, 2 and 2, with the second and third candidate as
  survivors.
\<close>

theorem enumeration_exact_witness:
  "(3 :: nat) \<le> length [2, 1, 2, 2 :: real] \<and>
   list_all (\<lambda>p. p < length [[1, 1, 1], [1, 1, 2], [2, 1, 1], [2, 1, 2 :: int]]) [1, 2] \<and>
   PERMS_J_3 [2, 1, 2, 2] = Inr [[1, 1, 1], [1, 1, 2], [2, 1, 1], [2, 1, 2]] \<and>
   distinct [[1, 1, 1], [1, 1, 2], [2, 1, 1], [2, 1, 2 :: int]] \<and>
   permutations_create [[1, 1, 1], [1, 1, 2], [2, 1, 1], [2, 1, 2]] [1, 2] [2, 1, 2, 2] 3 =
     Inr [([1, 1, 2], 1), ([1, 1, 2], 2), ([2, 1, 1], 1), ([2, 1, 1], 2)] \<and>
   PERMS_J_prime [([1, 1, 2], 1), ([1, 1, 2], 2), ([2, 1, 1], 1), ([2, 1, 1], 2)] ! (1 * 2 + 1) =
     [[1, 1, 1], [1, 1, 2], [2, 1, 1], [2, 1, 2]] ! ([1, 2] ! 1) @ [1 + int 1]"
proof -
  let ?ps = "[[1, 1, 1], [1, 1, 2], [2, 1, 1], [2, 1, 2 :: int]]"
  let ?pj = "[([1, 1, 2], 1), ([1, 1, 2], 2), ([2, 1, 1], 1), ([2, 1, 1], 2 :: int)]"
  have a: "PERMS_J_3 [2, 1, 2, 2] = Inr ?ps"
    by (simp add: PERMS_J_3_def get_def py_range_def product3_def upto_1_2 upto_1_1)
  have b: "permutations_create ?ps [1, 2] [2, 1, 2, 2] 3 = Inr ?pj"
    by (simp add: permutations_create_def np_array2_def take_idx_def get_def py_range_def
        product2_def upto_1_2)
  note e = enumeration_exact[of "[2, 1, 2, 2]" ?ps "[1, 2]" 3 ?ps ?pj]
  from e a have d: "distinct ?ps" by blast
  from e b have "\<forall>p < length [1, 2 :: nat]. \<forall>q < nat (py_int ([2, 1, 2, 2] ! 3)).
         ?pj ! (p * nat (py_int ([2, 1, 2, 2] ! 3)) + q) = (?ps ! ([1, 2] ! p), 1 + int q) \<and>
         PERMS_J_prime ?pj ! (p * nat (py_int ([2, 1, 2, 2] ! 3)) + q) = ?ps ! ([1, 2] ! p) @ [1 + int q]"
    by blast
  from this[rule_format, of 1 1] have "PERMS_J_prime ?pj ! (1 * 2 + 1) = ?ps ! ([1, 2] ! 1) @ [1 + int 1]"
    by simp
  moreover have "(3 :: nat) \<le> length [2, 1, 2, 2 :: real]"
    "list_all (\<lambda>p. p < length ?ps) [1, 2]"
    by simp_all
  ultimately show ?thesis
    using a b d by blast
qed

subsection \<open>Ambiguity distances\<close>

lemma subgroup_signal_nth:
  assumes "length kf = 2" "length (kf ! 0) = n" "length (kf ! 1) = n" "m < length xy" "j < n"
  shows "subgroup_signal xy kf ! m ! j =
           steering (fst (xy ! m) * kf ! 0 ! j + snd (xy ! m) * kf ! 1 ! j)"
  using assms
  by (simp add: subgroup_signal_def Let_def np_repeat0_def np_transpose_replicate mat_map2_def)

lemma subgroup_signal_shape:
  assumes "length (kf ! 0) = n" "length (kf ! 1) = n"
  shows "length (subgroup_signal xy kf) = length xy"
    and "m < length xy \<Longrightarrow> length (subgroup_signal xy kf ! m) = n"
  using assms
  by (simp_all add: subgroup_signal_def Let_def np_repeat0_def np_transpose_replicate mat_map2_def)

lemma subgroup_signal_k0_nth:
  "m < length xy \<Longrightarrow>
   subgroup_signal_k0 xy k0x k0y ! m = steering (fst (xy ! m) * k0x + snd (xy ! m) * k0y)"
  by (simp add: subgroup_signal_k0_def)

lemma explicit_k_finds:
  assumes "explicit il ind cap xy k0 = Inr r"
  shows "k_finds r =
           ([map (\<lambda>v. k0 ! 0 - fst v) (sel_points il ind cap),
             map (\<lambda>v. k0 ! 1 - fst (snd v)) (sel_points il ind cap)],
            map (\<lambda>v. np_sqrt (1 - (k0 ! 0 - fst v)\<^sup>2 - (k0 ! 1 - fst (snd v))\<^sup>2))
              (sel_points il ind cap))"
proof -
  from assms obtain idx s where idx: "take_idx ind cap = Inr idx" and s: "take_idx il idx = Inr s"
    and k: "1 < length k0"
    and r: "k_finds r =
       (let aux1 = mat_map2 (-) (np_repeat1 [[k0 ! 0], [k0 ! 1]] (length s))
                      [map fst s, map (fst \<circ> snd) s]
        in (aux1, map2 (\<lambda>a b. np_sqrt (1 - a\<^sup>2 - b\<^sup>2)) (aux1 ! 0) (aux1 ! 1)))"
    by (auto simp: explicit_def get_def Let_def split: sum.splits if_splits)
  from idx have "idx = map ((!) ind) cap"
    by (auto simp: take_idx_def split: if_splits)
  with s have "s = sel_points il ind cap"
    by (auto simp: take_idx_def sel_points_def split: if_splits)
  then show ?thesis
    unfolding r Let_def aux1_rows
    by (simp add: zip_map_map zip_same_conv_map comp_def del: One_nat_def)
qed

lemma explicit_distances:
  assumes "explicit il ind cap xy k0 = Inr r"
  shows "ambiguity_distances_explicit r =
           norm_axis0 (length cap)
             (mat_map2 (-) (np_transpose (length xy) (np_repeat0 (subgroup_signal_k0 xy (k0 ! 0) (k0 ! 1)) (length cap)))
                (subgroup_signal xy (fst (k_finds r))))"
proof -
  from assms obtain idx s where idx: "take_idx ind cap = Inr idx" and s: "take_idx il idx = Inr s"
    by (auto simp: explicit_def split: sum.splits)
  from idx have "length idx = length cap"
    by (auto simp: take_idx_def split: if_splits)
  with s have "length s = length cap"
    by (auto simp: take_idx_def split: if_splits)
  with assms idx s show ?thesis
    by (auto simp: explicit_def get_def Let_def split: sum.splits if_splits)
qed

lemma explicit_total:
  assumes "list_all (\<lambda>p. p < length ind) cap"
    and "list_all (\<lambda>p. ind ! p < length il) cap"
    and "2 \<le> length k0"
  shows "\<exists>r. explicit il ind cap xy k0 = Inr r"
proof -
  have "take_idx ind cap = Inr (map ((!) ind) cap)"
    using assms(1) by (simp add: take_idx_def)
  moreover have "take_idx il (map ((!) ind) cap) = Inr (map ((!) il) (map ((!) ind) cap))"
    using assms(2) by (simp add: take_idx_def list_all_iff)
  moreover have "0 < length k0" "1 < length k0"
    using assms(3) by linarith+
  ultimately show ?thesis
    by (simp add: explicit_def get_def Let_def del: length_greater_0_conv)
qed

lemma explicit_lengths:
  assumes "explicit il ind cap xy k0 = Inr r"
  shows "length (ambiguity_distances_explicit r) = length cap"
    and "length (snd (k_finds r)) = length cap"
    and "length (fst (k_finds r)) = 2"
    and "length (fst (k_finds r) ! 0) = length cap"
    and "length (fst (k_finds r) ! 1) = length cap"
  using explicit_distances[OF assms] explicit_k_finds[OF assms]
  by (simp_all add: norm_axis0_def sel_points_def)

lemma explicit_third:
  assumes "explicit il ind cap xy k0 = Inr r" "j < length cap"
  shows "fst (k_finds r) ! 0 ! j = k0 ! 0 - fst (il ! (ind ! (cap ! j)))"
    and "fst (k_finds r) ! 1 ! j = k0 ! 1 - fst (snd (il ! (ind ! (cap ! j))))"
    and "snd (k_finds r) ! j =
           np_sqrt (1 - (k0 ! 0 - fst (il ! (ind ! (cap ! j))))\<^sup>2
                      - (k0 ! 1 - fst (snd (il ! (ind ! (cap ! j)))))\<^sup>2)"
  using explicit_k_finds[OF assms(1)] assms(2)
  by (simp_all add: sel_points_def)

lemma norm_axis0_nth:
  "j < c \<Longrightarrow> norm_axis0 c a ! j = sqrt (\<Sum>m\<leftarrow>[0..<length a]. (cmod (a ! m ! j))\<^sup>2)"
proof -
  assume j: "j < c"
  have "map (\<lambda>row. (cmod (row ! j))\<^sup>2) a = map (\<lambda>m. (cmod (a ! m ! j))\<^sup>2) [0..<length a]"
    by (rule nth_equalityI) simp_all
  with j show ?thesis
    by (simp add: norm_axis0_def)
qed

lemma explicit_direction_at:
  assumes "explicit il ind cap xy k0 = Inr r" and "j < length cap"
  shows "let s = il ! (ind ! (cap ! j)); dx = k0 ! 0 - fst s; dy = k0 ! 1 - fst (snd s)
         in fst (k_finds r) ! 0 ! j = dx \<and>
            fst (k_finds r) ! 1 ! j = dy \<and>
            snd (k_finds r) ! j = np_sqrt (1 - dx\<^sup>2 - dy\<^sup>2) \<and>
            (\<forall>m < length xy.
               subgroup_signal xy (fst (k_finds r)) ! m ! j =
                 exp (- \<i> * 2 * of_real pi * of_real (fst (xy ! m) * dx + snd (xy ! m) * dy))) \<and>
            ambiguity_distances_explicit r ! j =
              sqrt (\<Sum>m\<leftarrow>[0..<length xy].
                (cmod (exp (- \<i> * 2 * of_real pi *
                              of_real (fst (xy ! m) * (k0 ! 0) + snd (xy ! m) * (k0 ! 1))) -
                       exp (- \<i> * 2 * of_real pi *
                              of_real (fst (xy ! m) * dx + snd (xy ! m) * dy))))\<^sup>2)"
proof -
  let ?s = "il ! (ind ! (cap ! j))"
  let ?dx = "k0 ! 0 - fst ?s" and ?dy = "k0 ! 1 - fst (snd ?s)"
  let ?kf = "fst (k_finds r)"
  note L = explicit_lengths[OF assms(1)]
  note T = explicit_third[OF assms]
  have sig: "subgroup_signal xy ?kf ! m ! j = steering (fst (xy ! m) * ?dx + snd (xy ! m) * ?dy)"
    if "m < length xy" for m
    using subgroup_signal_nth[OF L(3) L(4) L(5) that assms(2)] T by simp
  let ?d = "mat_map2 (-) (np_transpose (length xy)
                (np_repeat0 (subgroup_signal_k0 xy (k0 ! 0) (k0 ! 1)) (length cap)))
              (subgroup_signal xy ?kf)"
  have tr: "np_transpose (length xy) (np_repeat0 (subgroup_signal_k0 xy (k0 ! 0) (k0 ! 1)) (length cap))
      = map (replicate (length cap)) (subgroup_signal_k0 xy (k0 ! 0) (k0 ! 1))"
    unfolding np_repeat0_def
    by (rule np_transpose_replicate) (simp add: subgroup_signal_k0_def)
  have ld: "length ?d = length xy"
    unfolding tr
    by (simp add: mat_map2_length subgroup_signal_shape(1)[OF L(4) L(5)] subgroup_signal_k0_def)
  have dm: "?d ! m ! j = steering (fst (xy ! m) * (k0 ! 0) + snd (xy ! m) * (k0 ! 1)) -
                 steering (fst (xy ! m) * ?dx + snd (xy ! m) * ?dy)"
    if m: "m < length xy" for m
  proof -
    have "?d ! m ! j = (map (replicate (length cap)) (subgroup_signal_k0 xy (k0 ! 0) (k0 ! 1))) ! m ! j
                        - subgroup_signal xy ?kf ! m ! j"
      unfolding tr
      by (rule mat_map2_nth)
         (use m assms(2) in \<open>simp_all add: subgroup_signal_shape[OF L(4) L(5)] subgroup_signal_k0_def\<close>)
    also have "(map (replicate (length cap)) (subgroup_signal_k0 xy (k0 ! 0) (k0 ! 1))) ! m ! j
         = subgroup_signal_k0 xy (k0 ! 0) (k0 ! 1) ! m"
      using m assms(2) by (simp add: subgroup_signal_k0_def)
    finally show ?thesis
      by (simp add: sig[OF m] subgroup_signal_k0_nth[OF m])
  qed
  have "ambiguity_distances_explicit r ! j = sqrt (\<Sum>m\<leftarrow>[0..<length ?d]. (cmod (?d ! m ! j))\<^sup>2)"
    unfolding explicit_distances[OF assms(1)] by (rule norm_axis0_nth[OF assms(2)])
  also have "\<dots> = sqrt (\<Sum>m\<leftarrow>[0..<length xy].
      (cmod (steering (fst (xy ! m) * (k0 ! 0) + snd (xy ! m) * (k0 ! 1)) -
             steering (fst (xy ! m) * ?dx + snd (xy ! m) * ?dy)))\<^sup>2)"
    unfolding ld
    by (rule arg_cong[where f = sqrt], rule arg_cong[where f = sum_list], rule map_cong)
       (simp_all add: dm del: One_nat_def)
  finally have dist: "ambiguity_distances_explicit r ! j = sqrt (\<Sum>m\<leftarrow>[0..<length xy].
      (cmod (steering (fst (xy ! m) * (k0 ! 0) + snd (xy ! m) * (k0 ! 1)) -
             steering (fst (xy ! m) * ?dx + snd (xy ! m) * ?dy)))\<^sup>2)" .
  show ?thesis
    unfolding Let_def
    using T sig dist by (simp add: steering_def del: One_nat_def)
qed

lemma explicit_eval:
  "explicit [(a, b, c)] [0] [0] [(0, 0)] [k, l, m] =
     Inr \<lparr>ambiguity_distances_explicit = [0],
          ambiguity_normal_explicit = [[NaN]],
          k_finds = ([[k - a], [l - b]], [np_sqrt (1 - (k - a)\<^sup>2 - (l - b)\<^sup>2)])\<rparr>"
  by (simp add: explicit_def take_idx_def get_def Let_def mat_map2_def np_repeat1_def
      np_repeat0_def np_transpose_def subgroup_signal_def subgroup_signal_k0_def steering_def
      norm_axis0_def np_cdivide_def)

text \<open>
  C1, as the code has it. \<open>explicit\<close> returns a result whenever the cap positions lie
  in the list of survivors, the survivors are columns of the buffer and the wave vector
  has two components. For each point \<open>s\<close> that the cap positions select,
  \<open>explicit\<close> forms the ambiguous direction from the difference between the wave vector
  and the point: its first two components are \<open>dx = k0_x - s_x\<close> and
  \<open>dy = k0_y - s_y\<close>, its third is the square root of \<open>1 - dx\<^sup>2 - dy\<^sup>2\<close>. The response
  of the sub-group at \<open>(x, y)\<close> in that direction is \<open>exp (- \<i> 2 pi (x dx + y dy))\<close>,
  and the distance returned for the point is the norm of the difference between the
  responses at the wave vector and at that direction.
\<close>

theorem explicit_direction:
  "(list_all (\<lambda>p. p < length ind) cap \<and> list_all (\<lambda>p. ind ! p < length il) cap \<and>
    2 \<le> length k0 \<longrightarrow> (\<exists>r. explicit il ind cap xy k0 = Inr r)) \<and>
   (explicit il ind cap xy k0 = Inr r \<and> j < length cap \<longrightarrow>
      (let s = il ! (ind ! (cap ! j)); dx = k0 ! 0 - fst s; dy = k0 ! 1 - fst (snd s)
         in fst (k_finds r) ! 0 ! j = dx \<and>
            fst (k_finds r) ! 1 ! j = dy \<and>
            snd (k_finds r) ! j = np_sqrt (1 - dx\<^sup>2 - dy\<^sup>2) \<and>
            (\<forall>m < length xy.
               subgroup_signal xy (fst (k_finds r)) ! m ! j =
                 exp (- \<i> * 2 * of_real pi * of_real (fst (xy ! m) * dx + snd (xy ! m) * dy))) \<and>
            ambiguity_distances_explicit r ! j =
              sqrt (\<Sum>m\<leftarrow>[0..<length xy].
                (cmod (exp (- \<i> * 2 * of_real pi *
                              of_real (fst (xy ! m) * (k0 ! 0) + snd (xy ! m) * (k0 ! 1))) -
                       exp (- \<i> * 2 * of_real pi *
                              of_real (fst (xy ! m) * dx + snd (xy ! m) * dy))))\<^sup>2)))"
  using explicit_total[of ind cap il k0 xy] explicit_direction_at[of il ind cap xy k0 r j]
  by blast

lemma steering_half: "steering (1 / 2) = - 1"
proof -
  have "steering (1 / 2) = exp (- (\<i> * of_real pi))"
    by (simp add: steering_def)
  also have "\<dots> = inverse (exp (\<i> * of_real pi))"
    by (rule exp_minus)
  also have "\<dots> = - 1"
    by (simp add: exp_pi_i')
  finally show ?thesis .
qed

lemma steering_zero: "steering 0 = 1"
  by (simp add: steering_def)

lemma explicit_eval_half:
  "explicit [(1, 0, 0)] [0] [0] [(1 / 2, 0)] [1, 0, 0] =
     Inr \<lparr>ambiguity_distances_explicit = [2],
          ambiguity_normal_explicit = [[Fin (- 1)]],
          k_finds = ([[0], [0]], [Fin 1])\<rparr>"
  by (simp add: explicit_def take_idx_def get_def Let_def mat_map2_def np_repeat1_def
      np_repeat0_def np_transpose_def subgroup_signal_def subgroup_signal_k0_def
      norm_axis0_def np_cdivide_def np_sqrt_def steering_half steering_zero)

text \<open>
  C1, an instance: the wave vector \<open>(1, 0, 0)\<close>, the point \<open>(1, 0, 0)\<close> and one
  sub-group at \<open>(1/2, 0)\<close>.
\<close>

theorem explicit_direction_witness:
  "explicit [(1, 0, 0)] [0] [0] [(1 / 2, 0)] [1, 0, 0] =
     Inr \<lparr>ambiguity_distances_explicit = [2], ambiguity_normal_explicit = [[Fin (- 1)]],
          k_finds = ([[0], [0]], [Fin 1])\<rparr> \<and>
   (0 :: nat) < length [0 :: nat] \<and>
   list_all (\<lambda>p. p < length [0 :: nat]) [0] \<and>
   list_all (\<lambda>p. [0] ! p < length [(1, 0, 0 :: real)]) [0] \<and>
   2 \<le> length [1, 0, 0 :: real] \<and>
   snd (k_finds \<lparr>ambiguity_distances_explicit = [2], ambiguity_normal_explicit = [[Fin (- 1)]],
          k_finds = ([[0], [0]], [Fin 1])\<rparr>) ! 0 =
     np_sqrt (1 - ([1, 0, 0] ! 0 - fst ([(1, 0, 0)] ! ([0] ! ([0] ! 0))))\<^sup>2
                - ([1, 0, 0] ! 1 - fst (snd ([(1, 0, 0)] ! ([0] ! ([0] ! 0)))))\<^sup>2)"
proof -
  let ?r = "\<lparr>ambiguity_distances_explicit = [2], ambiguity_normal_explicit = [[Fin (- 1)]],
          k_finds = ([[0], [0]], [Fin 1])\<rparr>"
  have h: "explicit [(1, 0, 0)] [0] [0] [(1 / 2, 0)] [1, 0, 0] = Inr ?r"
    by (rule explicit_eval_half)
  have j: "(0 :: nat) < length [0 :: nat]" by simp
  from mp[OF conjunct2[OF explicit_direction[of "[0]" "[0]" "[(1, 0, 0)]" "[1, 0, 0]"
      "[(1 / 2, 0)]" ?r 0]] conjI[OF h j]] h j
  show ?thesis
    by (simp add: Let_def)
qed

text \<open>
  C1 as stated fails: for the wave vector \<open>(1, 0, 0)\<close> and the point \<open>(1, 0, 0)\<close>, which
  the cap filter keeps, the direction returned is \<open>(0, 0, 1)\<close> and the distance returned
  for a sub-group at \<open>(1/2, 0)\<close> is 2, while the components of the point itself give the
  direction \<open>(1, 0, 0)\<close>, with third cosine 0 and with the response of the wave vector,
  that is distance 0.
\<close>

theorem explicit_direction_counterexample:
  "slines_intersections [1, 0, 0] [0] [(1, 0, 0)] (pi / 2) = Inr [0] \<and>
   explicit [(1, 0, 0)] [0] [0] [(1 / 2, 0)] [1, 0, 0] =
     Inr \<lparr>ambiguity_distances_explicit = [2], ambiguity_normal_explicit = [[Fin (- 1)]],
          k_finds = ([[0], [0]], [Fin 1])\<rparr> \<and>
   np_sqrt (1 - 1\<^sup>2 - 0\<^sup>2) = Fin 0 \<and>
   cmod (steering (1 / 2 * 1 + 0 * 0) - steering (1 / 2 * 1 + 0 * 0)) = 0"
  by (simp add: explicit_eval_half np_sqrt_def slines_intersections_def get_def take_idx_def
      mat_map2_def np_repeat1_def np_where_def Let_def)

text \<open>
  C7, as the code has it. \<open>explicit\<close> has no error for the domain of the square root and
  excludes nothing: for the positions returned by the cap filter it returns a result, and
  every result holds one distance and one third cosine for each cap position. The third
  cosine of a position is the value that is not a number exactly when
  \<open>(k0_x - s_x)\<^sup>2 + (k0_y - s_y)\<^sup>2\<close> exceeds 1.
\<close>

theorem explicit_no_domain_error:
  "(slines_intersections k0 ind il th = Inr cap \<longrightarrow>
      (\<exists>r. explicit il ind cap xy k0 = Inr r \<and>
           length (ambiguity_distances_explicit r) = length cap \<and>
           length (snd (k_finds r)) = length cap)) \<and>
   (explicit il ind cap' xy k0 = Inr r' \<longrightarrow>
      length (ambiguity_distances_explicit r') = length cap' \<and>
      length (snd (k_finds r')) = length cap' \<and>
      (\<forall>j < length cap'.
         snd (k_finds r') ! j = NaN \<longleftrightarrow>
           1 < (k0 ! 0 - fst (il ! (ind ! (cap' ! j))))\<^sup>2
               + (k0 ! 1 - fst (snd (il ! (ind ! (cap' ! j)))))\<^sup>2))"
proof (intro conjI impI)
  assume a: "slines_intersections k0 ind il th = Inr cap"
  note P = slines_cap_props[OF a]
  from explicit_total[OF P(1) P(2) P(3)] obtain r where r: "explicit il ind cap xy k0 = Inr r"
    by blast
  from r explicit_lengths(1,2)[OF r]
  show "\<exists>r. explicit il ind cap xy k0 = Inr r \<and>
           length (ambiguity_distances_explicit r) = length cap \<and>
           length (snd (k_finds r)) = length cap"
    by blast
next
  assume r: "explicit il ind cap' xy k0 = Inr r'"
  show "length (ambiguity_distances_explicit r') = length cap'"
    by (rule explicit_lengths(1)[OF r])
  show "length (snd (k_finds r')) = length cap'"
    by (rule explicit_lengths(2)[OF r])
  show "\<forall>j < length cap'.
         snd (k_finds r') ! j = NaN \<longleftrightarrow>
           1 < (k0 ! 0 - fst (il ! (ind ! (cap' ! j))))\<^sup>2
               + (k0 ! 1 - fst (snd (il ! (ind ! (cap' ! j)))))\<^sup>2"
  proof (intro allI impI)
    fix j assume j: "j < length cap'"
    from explicit_third(3)[OF r j] show "snd (k_finds r') ! j = NaN \<longleftrightarrow>
           1 < (k0 ! 0 - fst (il ! (ind ! (cap' ! j))))\<^sup>2
               + (k0 ! 1 - fst (snd (il ! (ind ! (cap' ! j)))))\<^sup>2"
      by (auto simp: np_sqrt_def simp del: One_nat_def)
  qed
qed

text \<open>
  C7, two instances: the point \<open>(3/2, 0, 0)\<close>, kept by the cap filter, and the point
  \<open>(3, 0, 0)\<close> given directly.
\<close>

theorem explicit_no_domain_error_witness:
  "slines_intersections [1, 0, 0] [0] [(3 / 2, 0, 0)] (pi / 2) = Inr [0] \<and>
   explicit [(3 / 2, 0, 0)] [0] [0] [(0, 0)] [1, 0, 0] =
     Inr \<lparr>ambiguity_distances_explicit = [0], ambiguity_normal_explicit = [[NaN]],
          k_finds = ([[- 1 / 2], [0]], [Fin (sqrt (3 / 4))])\<rparr> \<and>
   explicit [(3, 0, 0)] [0] [0] [(0, 0)] [1, 0, 0] =
     Inr \<lparr>ambiguity_distances_explicit = [0], ambiguity_normal_explicit = [[NaN]],
          k_finds = ([[- 2], [0]], [NaN])\<rparr> \<and>
   (1 :: real) < ([1, 0, 0] ! 0 - fst ([(3, 0, 0)] ! ([0] ! ([0] ! 0))))\<^sup>2
               + ([1, 0, 0] ! 1 - fst (snd ([(3, 0, 0)] ! ([0] ! ([0] ! 0)))))\<^sup>2"
proof -
  let ?r' = "\<lparr>ambiguity_distances_explicit = [0], ambiguity_normal_explicit = [[NaN]],
          k_finds = ([[- 2], [0]], [NaN])\<rparr>"
  have sq: "(3 / 2 :: real)\<^sup>2 = 9 / 4" "(1 / 2 :: real)\<^sup>2 = 1 / 4"
    by (simp_all add: power2_eq_square)
  have a: "slines_intersections [1, 0, 0] [0] [(3 / 2, 0, 0)] (pi / 2) = Inr [0]"
    using sq by (simp add: slines_intersections_def get_def take_idx_def mat_map2_def np_repeat1_def
        np_where_def Let_def real_sqrt_le_1_iff)
  have b: "explicit [(3 / 2, 0, 0)] [0] [0] [(0, 0)] [1, 0, 0] =
     Inr \<lparr>ambiguity_distances_explicit = [0], ambiguity_normal_explicit = [[NaN]],
          k_finds = ([[- 1 / 2], [0]], [Fin (sqrt (3 / 4))])\<rparr>"
    using sq by (simp add: explicit_eval np_sqrt_def)
  have c: "explicit [(3, 0, 0)] [0] [0] [(0, 0)] [1, 0, 0] = Inr ?r'"
    by (simp add: explicit_eval np_sqrt_def)
  note t = explicit_no_domain_error[of "[1, 0, 0]" "[0]" "[(3 / 2, 0, 0)]" "pi / 2" "[0]" "[(0, 0)]"
      "[0]" ?r' ]
  note u = explicit_no_domain_error[of "[1, 0, 0]" "[0]" "[(3, 0, 0)]" "pi / 2" "[]" "[(0, 0)]"
      "[0]" ?r' ]
  from mp[OF conjunct1[OF t] a] b
  have w: "length (snd (k_finds \<lparr>ambiguity_distances_explicit = [0],
          ambiguity_normal_explicit = [[NaN]],
          k_finds = ([[- 1 / 2], [0]], [Fin (sqrt (3 / 4))])\<rparr>)) = length [0 :: nat]"
    by auto
  note q = conjunct2[OF conjunct2[OF mp[OF conjunct2[OF u] c]]]
  from q[rule_format, of 0] a b c w show ?thesis
    by simp
qed

text \<open>
  C7 as stated fails: the point \<open>(3/2, 0, 0)\<close> has \<open>s_x\<^sup>2 + s_y\<^sup>2 > 1\<close> and is kept by
  the cap filter at the wave vector \<open>(1, 0, 0)\<close>; \<open>explicit\<close> raises nothing and returns
  it with the third cosine \<open>sqrt (3/4)\<close>.
\<close>

theorem explicit_no_domain_error_counterexample:
  "slines_intersections [1, 0, 0] [0] [(3 / 2, 0, 0)] (pi / 2) = Inr [0] \<and>
   1 < (3 / 2 :: real)\<^sup>2 + 0\<^sup>2 \<and>
   explicit [(3 / 2, 0, 0)] [0] [0] [(0, 0)] [1, 0, 0] =
     Inr \<lparr>ambiguity_distances_explicit = [0], ambiguity_normal_explicit = [[NaN]],
          k_finds = ([[- 1 / 2], [0]], [Fin (sqrt (3 / 4))])\<rparr>"
proof -
  have "(3 / 2 :: real)\<^sup>2 = 9 / 4" "(1 / 2 :: real)\<^sup>2 = 1 / 4"
    by (simp_all add: power2_eq_square)
  then show ?thesis
    by (simp add: explicit_eval np_sqrt_def slines_intersections_def get_def take_idx_def mat_map2_def np_repeat1_def
        np_where_def Let_def real_sqrt_le_1_iff)
qed

subsection \<open>Matrix products\<close>

lemma is_matD:
  assumes "is_mat m n a"
  shows "length a = m" and "\<And>i. i < m \<Longrightarrow> length (a ! i) = n"
  using assms by (auto simp: is_mat_def list_all_length)

lemma is_mat_ncols: "is_mat m n a \<Longrightarrow> 0 < m \<Longrightarrow> ncols a = n"
  by (cases a) (auto simp: is_mat_def ncols_def)

lemma mat_mul_nth:
  "i < length a \<Longrightarrow> j < ncols b \<Longrightarrow>
   mat_mul a b ! i ! j = (\<Sum>k = 0..<length b. a ! i ! k * b ! k ! j)"
  by (simp add: mat_mul_def sum_list_upt)

lemma mat_mul_is_mat:
  assumes "is_mat m n a" "is_mat n p b" "0 < n"
  shows "is_mat m p (mat_mul a b)"
  using assms is_mat_ncols[OF assms(2,3)]
  by (simp add: is_mat_def mat_mul_def list_all_length)

lemma mat_mul_assoc:
  assumes A: "is_mat m n a" and B: "is_mat n p b" and C: "is_mat p q c"
    and n: "0 < n" and p: "0 < p"
  shows "mat_mul (mat_mul a b) c = mat_mul a (mat_mul b c)"
proof -
  have AB: "is_mat m p (mat_mul a b)" by (rule mat_mul_is_mat[OF A B n])
  have BC: "is_mat n q (mat_mul b c)" by (rule mat_mul_is_mat[OF B C p])
  have L: "is_mat m q (mat_mul (mat_mul a b) c)" by (rule mat_mul_is_mat[OF AB C p])
  have R: "is_mat m q (mat_mul a (mat_mul b c))" by (rule mat_mul_is_mat[OF A BC n])
  have nb: "ncols b = p" by (rule is_mat_ncols[OF B n])
  have nc: "ncols c = q" by (rule is_mat_ncols[OF C p])
  have nbc: "ncols (mat_mul b c) = q" by (rule is_mat_ncols[OF BC n])
  show ?thesis
  proof (rule nth_equalityI)
    show "length (mat_mul (mat_mul a b) c) = length (mat_mul a (mat_mul b c))"
      by (simp add: is_matD(1)[OF L] is_matD(1)[OF R])
  next
    fix i assume "i < length (mat_mul (mat_mul a b) c)"
    then have i: "i < m" by (simp add: is_matD(1)[OF L])
    show "mat_mul (mat_mul a b) c ! i = mat_mul a (mat_mul b c) ! i"
    proof (rule nth_equalityI)
      show "length (mat_mul (mat_mul a b) c ! i) = length (mat_mul a (mat_mul b c) ! i)"
        by (simp add: is_matD(2)[OF L i] is_matD(2)[OF R i])
    next
      fix j assume "j < length (mat_mul (mat_mul a b) c ! i)"
      then have j: "j < q" by (simp add: is_matD(2)[OF L i])
      have "mat_mul (mat_mul a b) c ! i ! j = (\<Sum>l = 0..<p. mat_mul a b ! i ! l * c ! l ! j)"
        using i j by (simp add: mat_mul_nth is_matD(1)[OF AB] nc is_matD(1)[OF C])
      also have "\<dots> = (\<Sum>l = 0..<p. (\<Sum>k = 0..<n. a ! i ! k * b ! k ! l) * c ! l ! j)"
        by (rule sum.cong) (use i in \<open>simp_all add: mat_mul_nth is_matD(1)[OF A] nb is_matD(1)[OF B]\<close>)
      also have "\<dots> = (\<Sum>l = 0..<p. \<Sum>k = 0..<n. a ! i ! k * (b ! k ! l * c ! l ! j))"
        by (simp add: sum_distrib_right mult.assoc)
      also have "\<dots> = (\<Sum>k = 0..<n. \<Sum>l = 0..<p. a ! i ! k * (b ! k ! l * c ! l ! j))"
        by (rule sum.swap)
      also have "\<dots> = (\<Sum>k = 0..<n. a ! i ! k * (\<Sum>l = 0..<p. b ! k ! l * c ! l ! j))"
        by (simp add: sum_distrib_left)
      also have "\<dots> = (\<Sum>k = 0..<n. a ! i ! k * mat_mul b c ! k ! j)"
        by (rule sum.cong) (use j in \<open>simp_all add: mat_mul_nth is_matD(1)[OF B] nc is_matD(1)[OF C]\<close>)
      also have "\<dots> = mat_mul a (mat_mul b c) ! i ! j"
        using i j by (simp add: mat_mul_nth is_matD(1)[OF A] nbc is_matD(1)[OF BC])
      finally show "mat_mul (mat_mul a b) c ! i ! j = mat_mul a (mat_mul b c) ! i ! j" .
    qed
  qed
qed

lemma dot_ok: "is_mat m n a \<Longrightarrow> length b = n \<Longrightarrow> dot a b = Inr (mat_mul a b)"
  by (simp add: dot_def is_mat_def)

lemma multi_dot3_ok:
  assumes A: "is_mat m n a" and B: "is_mat n p b" and C: "is_mat p q c"
    and n: "0 < n" and p: "0 < p"
  shows "multi_dot3 a b c = Inr (mat_mul a (mat_mul b c))"
proof -
  have AB: "is_mat m p (mat_mul a b)" by (rule mat_mul_is_mat[OF A B n])
  have BC: "is_mat n q (mat_mul b c)" by (rule mat_mul_is_mat[OF B C p])
  have 1: "dot a b = Inr (mat_mul a b)" by (rule dot_ok[OF A is_matD(1)[OF B]])
  have 2: "dot (mat_mul a b) c = Inr (mat_mul (mat_mul a b) c)"
    by (rule dot_ok[OF AB is_matD(1)[OF C]])
  have 3: "dot b c = Inr (mat_mul b c)" by (rule dot_ok[OF B is_matD(1)[OF C]])
  have 4: "dot a (mat_mul b c) = Inr (mat_mul a (mat_mul b c))"
    by (rule dot_ok[OF A is_matD(1)[OF BC]])
  show ?thesis
    by (simp add: multi_dot3_def Let_def 1 2 3 4 mat_mul_assoc[OF A B C n p])
qed

lemma column_col0: "is_mat n 1 a \<Longrightarrow> column (map (\<lambda>row. row ! 0) a) = a"
proof -
  assume a: "is_mat n 1 a"
  have "[row ! 0] = row" if "length row = 1" for row :: "real list"
    using that by (cases row) simp_all
  with a show ?thesis
    by (auto simp: column_def is_mat_def list_all_iff map_idI)
qed

lemma column_is_mat: "is_mat (length v) 1 (column v)"
  by (simp add: is_mat_def column_def list_all_iff)

lemma col0_ok: "is_mat n 1 a \<Longrightarrow> col0 a = Inr (map (\<lambda>row. row ! 0) a)"
  by (auto simp: col0_def is_mat_def list_all_iff)

lemma ravel_is_mat1: "is_mat n 1 a \<Longrightarrow> ravel a = map (\<lambda>row. row ! 0) a"
proof (induction a arbitrary: n)
  case Nil
  then show ?case by (simp add: ravel_def)
next
  case (Cons row a)
  then have "length row = 1" and "is_mat (length a) 1 a"
    by (simp_all add: is_mat_def)
  moreover from \<open>length row = 1\<close> have "row = [row ! 0]"
    by (cases row) simp_all
  ultimately show ?case
    using Cons.IH[of "length a"] by (simp add: ravel_def)
qed

lemma column_ravel: "is_mat n 1 a \<Longrightarrow> column (ravel a) = a"
  by (simp add: ravel_is_mat1 column_col0)

lemma length_ravel1: "is_mat n 1 a \<Longrightarrow> length (ravel a) = n"
  by (simp add: ravel_is_mat1 is_mat_def)

lemma get_column_ok:
  "is_mat m niter b_set \<Longrightarrow> ind < niter \<Longrightarrow>
   get_column b_set ind = Inr (map (\<lambda>row. row ! ind) b_set)"
  by (auto simp: get_column_def is_mat_def list_all_iff)

lemma to_vec3_ok: "length v = 3 \<Longrightarrow> \<exists>x y z. v = [x, y, z] \<and> to_vec3 v = Inr (x, y, z)"
proof -
  assume "length v = 3"
  then obtain x y z where "v = [x, y, z]"
    by (cases v; cases "tl v"; cases "tl (tl v)") auto
  then show ?thesis by (simp add: to_vec3_def)
qed

lemma slot_values:
  assumes W: "is_mat m 3 W" and P: "is_mat 3 m Wpinv" and B: "is_mat m niter b_set"
    and m: "0 < m" and i: "ind < niter"
  shows "\<exists>b x y z. get_column b_set ind = Inr b \<and> length b = m \<and>
           slot_line Wpinv b_set ind = Inr (x, y, z) \<and>
           column [x, y, z] = mat_mul Wpinv (column b) \<and>
           slot_norm W Wpinv b_set ind =
             Inr (norm2 (map2 (-) (ravel (mat_mul W (column [x, y, z]))) b))"
proof -
  let ?b = "map (\<lambda>row. row ! ind) b_set"
  have lb: "length ?b = m" using B by (simp add: is_mat_def)
  have gc: "get_column b_set ind = Inr ?b" by (rule get_column_ok[OF B i])
  have CB: "is_mat m 1 (column ?b)" using column_is_mat[of ?b] unfolding lb .
  let ?pb = "mat_mul Wpinv (column ?b)"
  have PB: "is_mat 3 1 ?pb" by (rule mat_mul_is_mat[OF P CB m])
  have WPB: "is_mat m 1 (mat_mul W ?pb)" by (rule mat_mul_is_mat[OF W PB]) simp
  have md: "multi_dot3 W Wpinv (column ?b) = Inr (mat_mul W ?pb)"
    by (rule multi_dot3_ok[OF W P CB _ m]) simp
  have d: "dot Wpinv (column ?b) = Inr ?pb"
    by (rule dot_ok[OF P is_matD(1)[OF CB]])
  from to_vec3_ok[OF length_ravel1[OF PB]] obtain x y z
    where xyz: "ravel ?pb = [x, y, z]" and tv: "to_vec3 (ravel ?pb) = Inr (x, y, z)"
    by blast
  have col: "column [x, y, z] = ?pb"
    using column_ravel[OF PB] by (simp add: xyz)
  have bc: "broadcast2 (-) (ravel (mat_mul W ?pb)) ?b = Inr (map2 (-) (ravel (mat_mul W ?pb)) ?b)"
    by (rule broadcast2_same) (simp add: length_ravel1[OF WPB] is_matD(1)[OF B])
  have sl: "slot_line Wpinv b_set ind = Inr (x, y, z)"
    by (simp add: slot_line_def gc d tv)
  have sn: "slot_norm W Wpinv b_set ind = Inr (norm2 (map2 (-) (ravel (mat_mul W ?pb)) ?b))"
    by (simp add: slot_norm_def gc md bc)
  from gc lb sl col sn show ?thesis
    by (intro exI[of _ ?b] exI[of _ x] exI[of _ y] exI[of _ z]) simp
qed

subsection \<open>Stores into the buffers\<close>

lemma slot_total:
  assumes "stage_ok m niter W Wpinv b_set" "ind < niter"
  shows "slot_norm W Wpinv b_set ind = Inr (projr (slot_norm W Wpinv b_set ind))"
    and "slot_line Wpinv b_set ind = Inr (projr (slot_line Wpinv b_set ind))"
proof -
  from assms have "is_mat m 3 W" "is_mat 3 m Wpinv" "is_mat m niter b_set" "0 < m"
    by (simp_all add: stage_ok_def)
  from slot_values[OF this assms(2)] obtain r v
    where "slot_norm W Wpinv b_set ind = Inr r" "slot_line Wpinv b_set ind = Inr v"
    by blast
  then show "slot_norm W Wpinv b_set ind = Inr (projr (slot_norm W Wpinv b_set ind))"
    and "slot_line Wpinv b_set ind = Inr (projr (slot_line Wpinv b_set ind))"
    by simp_all
qed

lemma written_empty: "written W Wpinv b_set {} st = st"
  by (simp add: written_def map_nth)

lemma bufs_ok_written: "bufs_ok niter (written W Wpinv b_set ws st) = bufs_ok niter st"
  by (simp add: written_def bufs_ok_def)

lemma exec_write_ok:
  assumes "stage_ok m niter W Wpinv b_set" "bufs_ok niter st" "write_index w < niter"
  shows "exec_write W Wpinv b_set w st = Inr (written W Wpinv b_set {w} st)"
proof (cases w)
  case (WriteNorm ind)
  with assms(3) have i: "ind < niter" by simp
  have "exec_write W Wpinv b_set w st =
          Inr (st\<lparr>pinv_norm_set := (pinv_norm_set st)[ind := projr (slot_norm W Wpinv b_set ind)]\<rparr>)"
    using assms(2) i slot_total(1)[OF assms(1) i]
    by (cases "slot_norm W Wpinv b_set ind") (simp_all add: WriteNorm bufs_ok_def)
  also have "st\<lparr>pinv_norm_set := (pinv_norm_set st)[ind := projr (slot_norm W Wpinv b_set ind)]\<rparr>
      = written W Wpinv b_set {w} st"
    by (simp add: written_def WriteNorm list_update_as_map map_nth)
  finally show ?thesis .
next
  case (WriteLine ind)
  with assms(3) have i: "ind < niter" by simp
  have "exec_write W Wpinv b_set w st =
          Inr (st\<lparr>intersection_line_set :=
                  (intersection_line_set st)[ind := projr (slot_line Wpinv b_set ind)]\<rparr>)"
    using assms(2) i slot_total(2)[OF assms(1) i]
    by (cases "slot_line Wpinv b_set ind") (simp_all add: WriteLine bufs_ok_def)
  also have "st\<lparr>intersection_line_set :=
                  (intersection_line_set st)[ind := projr (slot_line Wpinv b_set ind)]\<rparr>
      = written W Wpinv b_set {w} st"
    by (simp add: written_def WriteLine list_update_as_map map_nth)
  finally show ?thesis .
qed

lemma written_insert:
  "written W Wpinv b_set ws (written W Wpinv b_set {w} st) = written W Wpinv b_set (insert w ws) st"
  by (auto simp: written_def)

lemma written_union:
  "written W Wpinv b_set ws' (written W Wpinv b_set ws st) = written W Wpinv b_set (ws \<union> ws') st"
  by (auto simp: written_def)

lemma written_nth:
  assumes "bufs_ok niter st" "k < niter"
  shows "pinv_norm_set (written W Wpinv b_set ws st) ! k =
           (if WriteNorm k \<in> ws then projr (slot_norm W Wpinv b_set k) else pinv_norm_set st ! k)"
    and "intersection_line_set (written W Wpinv b_set ws st) ! k =
           (if WriteLine k \<in> ws then projr (slot_line Wpinv b_set k)
            else intersection_line_set st ! k)"
  using assms by (simp_all add: written_def bufs_ok_def)

lemma thread_writes_Cons:
  "thread_writes (i # rng) = WriteNorm i # WriteLine i # thread_writes rng"
  by (simp add: thread_writes_def)

lemma ptr_ok:
  assumes "stage_ok m niter W Wpinv b_set"
  shows "bufs_ok niter st \<Longrightarrow> \<forall>i \<in> set rng. i < niter \<Longrightarrow>
         mooore_penrose_solution_ptr W Wpinv b_set st rng =
           Inr (written W Wpinv b_set (set (thread_writes rng)) st)"
proof (induction rng arbitrary: st)
  case Nil
  then show ?case by (simp add: thread_writes_def written_empty)
next
  case (Cons i rng)
  let ?st1 = "written W Wpinv b_set {WriteNorm i} st"
  let ?st2 = "written W Wpinv b_set {WriteLine i} ?st1"
  from Cons.prems have i: "i < niter" and r: "\<forall>i \<in> set rng. i < niter" by simp_all
  have ok1: "bufs_ok niter ?st1" using Cons.prems(1) by (simp add: bufs_ok_written)
  then have ok2: "bufs_ok niter ?st2" by (simp add: bufs_ok_written)
  have e1: "exec_write W Wpinv b_set (WriteNorm i) st = Inr ?st1"
    by (rule exec_write_ok[OF assms Cons.prems(1)]) (simp add: i)
  have e2: "exec_write W Wpinv b_set (WriteLine i) ?st1 = Inr ?st2"
    by (rule exec_write_ok[OF assms ok1]) (simp add: i)
  have "mooore_penrose_solution_ptr W Wpinv b_set st (i # rng) =
          mooore_penrose_solution_ptr W Wpinv b_set ?st2 rng"
    by (simp only: mooore_penrose_solution_ptr.simps e1 e2 sum.case)
  also have "\<dots> = Inr (written W Wpinv b_set (set (thread_writes rng)) ?st2)"
    by (rule Cons.IH[OF ok2 r])
  also have "written W Wpinv b_set (set (thread_writes rng)) ?st2 =
      written W Wpinv b_set (set (thread_writes (i # rng))) st"
  proof -
    have "{WriteNorm i} \<union> {WriteLine i} \<union> set (thread_writes rng) =
        set (thread_writes (i # rng))"
      by (auto simp: thread_writes_Cons)
    then show ?thesis
      by (simp only: written_union)
  qed
  finally show ?case .
qed

subsection \<open>The pseudo-inverse solve\<close>

text \<open>
  C4. For a matrix \<open>W\<close> of \<open>m\<close> rows and \<open>n\<close> columns, a pseudo-inverse of the
  transposed shape and a displacement vector \<open>b\<close> of \<open>m\<close> entries, the solver returns
  the pair \<open>(x, r)\<close> with \<open>x = pinv W * b\<close> and \<open>r = ||W * pinv W * b - b||\<close>, and then
  \<open>||W * x - b|| = r\<close>. The values that one iteration of
  \<open>mooore_penrose_solution_ptr\<close> stores in the buffers for a candidate are such a pair.
\<close>

theorem pinv_solution_consistent:
  "(is_mat m n W \<and> is_mat n m (pinv W) \<and> is_mat m 1 b \<and> 0 < m \<and> 0 < n \<longrightarrow>
      (\<exists>x r. mooore_penrose_solution pinv W b = Inr (x, r) \<and>
             column x = mat_mul (pinv W) b \<and>
             r = frobenius (map2 (map2 (-)) (mat_mul W (mat_mul (pinv W) b)) b) \<and>
             frobenius (map2 (map2 (-)) (mat_mul W (column x)) b) = r)) \<and>
   (stage_ok m' niter W' Wpinv b_set \<and> bufs_ok niter st \<and> ind < niter \<longrightarrow>
      (\<exists>c x y z r st'.
          get_column b_set ind = Inr c \<and>
          mooore_penrose_solution_ptr W' Wpinv b_set st [ind] = Inr st' \<and>
          intersection_line_set st' ! ind = (x, y, z) \<and>
          pinv_norm_set st' ! ind = r \<and>
          column [x, y, z] = mat_mul Wpinv (column c) \<and>
          r = norm2 (map2 (-) (ravel (mat_mul W' (mat_mul Wpinv (column c)))) c) \<and>
          norm2 (map2 (-) (ravel (mat_mul W' (column [x, y, z]))) c) = r))"
proof (intro conjI impI)
  assume a: "is_mat m n W \<and> is_mat n m (pinv W) \<and> is_mat m 1 b \<and> 0 < m \<and> 0 < n"
  let ?pb = "mat_mul (pinv W) b"
  let ?x = "map (\<lambda>row. row ! 0) ?pb"
  from a have W: "is_mat m n W" and P: "is_mat n m (pinv W)" and B: "is_mat m 1 b"
    and m: "0 < m" and n: "0 < n" by simp_all
  have PB: "is_mat n 1 ?pb" by (rule mat_mul_is_mat[OF P B m])
  have WPB: "is_mat m 1 (mat_mul W ?pb)" by (rule mat_mul_is_mat[OF W PB n])
  have md: "multi_dot3 W (pinv W) b = Inr (mat_mul W ?pb)"
    by (rule multi_dot3_ok[OF W P B n m])
  have bc: "broadcast2 (map2 (-)) (mat_mul W ?pb) b = Inr (map2 (map2 (-)) (mat_mul W ?pb) b)"
    by (rule broadcast2_same) (simp add: is_matD(1)[OF WPB] is_matD(1)[OF B])
  have d: "dot (pinv W) b = Inr ?pb"
    by (rule dot_ok[OF P is_matD(1)[OF B]])
  have c: "col0 ?pb = Inr ?x" by (rule col0_ok[OF PB])
  have x: "column ?x = ?pb" by (rule column_col0[OF PB])
  have "mooore_penrose_solution pinv W b =
          Inr (?x, frobenius (map2 (map2 (-)) (mat_mul W ?pb) b))"
    by (simp add: mooore_penrose_solution_def md bc d c)
  with x show "\<exists>x r. mooore_penrose_solution pinv W b = Inr (x, r) \<and>
             column x = mat_mul (pinv W) b \<and>
             r = frobenius (map2 (map2 (-)) (mat_mul W (mat_mul (pinv W) b)) b) \<and>
             frobenius (map2 (map2 (-)) (mat_mul W (column x)) b) = r"
    by simp
next
  assume a: "stage_ok m' niter W' Wpinv b_set \<and> bufs_ok niter st \<and> ind < niter"
  then have so: "stage_ok m' niter W' Wpinv b_set" and bo: "bufs_ok niter st" and i: "ind < niter"
    by simp_all
  from so have "is_mat m' 3 W'" "is_mat 3 m' Wpinv" "is_mat m' niter b_set" "0 < m'"
    by (simp_all add: stage_ok_def)
  from slot_values[OF this i] obtain c x y z
    where gc: "get_column b_set ind = Inr c"
      and sl: "slot_line Wpinv b_set ind = Inr (x, y, z)"
      and col: "column [x, y, z] = mat_mul Wpinv (column c)"
      and sn: "slot_norm W' Wpinv b_set ind =
                 Inr (norm2 (map2 (-) (ravel (mat_mul W' (column [x, y, z]))) c))"
    by blast
  let ?st' = "written W' Wpinv b_set (set (thread_writes [ind])) st"
  have p: "mooore_penrose_solution_ptr W' Wpinv b_set st [ind] = Inr ?st'"
    by (rule ptr_ok[OF so bo]) (simp add: i)
  have l: "intersection_line_set ?st' ! ind = (x, y, z)"
    by (simp add: written_nth(2)[OF bo i] thread_writes_def sl)
  have nn: "pinv_norm_set ?st' ! ind = norm2 (map2 (-) (ravel (mat_mul W' (column [x, y, z]))) c)"
    by (simp add: written_nth(1)[OF bo i] thread_writes_def sn)
  from gc p l nn col
  show "\<exists>c x y z r st'.
          get_column b_set ind = Inr c \<and>
          mooore_penrose_solution_ptr W' Wpinv b_set st [ind] = Inr st' \<and>
          intersection_line_set st' ! ind = (x, y, z) \<and>
          pinv_norm_set st' ! ind = r \<and>
          column [x, y, z] = mat_mul Wpinv (column c) \<and>
          r = norm2 (map2 (-) (ravel (mat_mul W' (mat_mul Wpinv (column c)))) c) \<and>
          norm2 (map2 (-) (ravel (mat_mul W' (column [x, y, z]))) c) = r"
    by (intro exI[of _ c] exI[of _ x] exI[of _ y] exI[of _ z] exI[of _ ?st']
        exI[of _ "norm2 (map2 (-) (ravel (mat_mul W' (column [x, y, z]))) c)"]) simp
qed

lemma mps_eval:
  "mooore_penrose_solution (\<lambda>_. [[1, 0, 0], [0, 1, 0], [0, 0, 1]])
     [[1, 0, 0], [0, 1, 0], [0, 0, 1]] [[1], [2], [3]] = Inr ([1, 2, 3], 0)"
  by (simp add: mooore_penrose_solution_def multi_dot3_def dot_def mat_mul_def ncols_def
      broadcast2_def col0_def frobenius_def Let_def eval_nat_numeral)

lemma slot_eval:
  "slot_norm [[1, 0, 0]] [[1], [0], [0]] [[5, 7, 9]] 0 = Inr 0"
  "slot_norm [[1, 0, 0]] [[1], [0], [0]] [[5, 7, 9]] (Suc 0) = Inr 0"
  "slot_norm [[1, 0, 0]] [[1], [0], [0]] [[5, 7, 9]] (Suc (Suc 0)) = Inr 0"
  "slot_line [[1], [0], [0]] [[5, 7, 9]] 0 = Inr (5, 0, 0)"
  "slot_line [[1], [0], [0]] [[5, 7, 9]] (Suc 0) = Inr (7, 0, 0)"
  "slot_line [[1], [0], [0]] [[5, 7, 9]] (Suc (Suc 0)) = Inr (9, 0, 0)"
  by (simp_all add: slot_norm_def slot_line_def get_column_def multi_dot3_def dot_def mat_mul_def
      ncols_def column_def ravel_def broadcast2_def norm2_def to_vec3_def Let_def)

lemma ptr_eval:
  "mooore_penrose_solution_ptr [[1, 0, 0]] [[1], [0], [0]] [[5, 7, 9]]
     \<lparr>intersection_line_set = [(0, 0, 0), (0, 0, 0), (0, 0, 0)], pinv_norm_set = [1, 1, 1]\<rparr>
     [0, 1, 2] =
   Inr \<lparr>intersection_line_set = [(5, 0, 0), (7, 0, 0), (9, 0, 0)], pinv_norm_set = [0, 0, 0]\<rparr>"
  by (simp add: slot_eval eval_nat_numeral)

text \<open>
  C4, two instances: the identity of three rows, and one baseline with three candidates.
\<close>

theorem pinv_solution_consistent_witness:
  "is_mat 3 3 [[1, 0, 0], [0, 1, 0], [0, 0, 1 :: real]] \<and>
   is_mat 3 1 [[1], [2], [3 :: real]] \<and>
   mooore_penrose_solution (\<lambda>_. [[1, 0, 0], [0, 1, 0], [0, 0, 1]])
     [[1, 0, 0], [0, 1, 0], [0, 0, 1]] [[1], [2], [3]] = Inr ([1, 2, 3], 0) \<and>
   frobenius (map2 (map2 (-)) (mat_mul [[1, 0, 0], [0, 1, 0], [0, 0, 1]] (column [1, 2, 3]))
     [[1], [2], [3]]) = 0 \<and>
   stage_ok 1 3 [[1, 0, 0]] [[1], [0], [0]] [[5, 7, 9]] \<and>
   bufs_ok 3 \<lparr>intersection_line_set = [(0, 0, 0), (0, 0, 0), (0, 0, 0)],
              pinv_norm_set = [1, 1, 1]\<rparr> \<and>
   (\<exists>c x y z r st'.
      get_column [[5, 7, 9]] 1 = Inr c \<and>
      mooore_penrose_solution_ptr [[1, 0, 0]] [[1], [0], [0]] [[5, 7, 9]]
        \<lparr>intersection_line_set = [(0, 0, 0), (0, 0, 0), (0, 0, 0)], pinv_norm_set = [1, 1, 1]\<rparr>
        [1] = Inr st' \<and>
      intersection_line_set st' ! 1 = (x, y, z) \<and> pinv_norm_set st' ! 1 = r \<and>
      norm2 (map2 (-) (ravel (mat_mul [[1, 0, 0]] (column [x, y, z]))) c) = r)"
proof -
  let ?I = "[[1, 0, 0], [0, 1, 0], [0, 0, 1 :: real]]"
  let ?b = "[[1], [2], [3 :: real]]"
  let ?st = "\<lparr>intersection_line_set = [(0, 0, 0), (0, 0, 0), (0, 0, 0 :: real)],
              pinv_norm_set = [1, 1, 1 :: real]\<rparr>"
  have h1: "is_mat 3 3 ?I" "is_mat 3 1 ?b"
    by (simp_all add: is_mat_def)
  have h2: "stage_ok 1 3 [[1, 0, 0]] [[1], [0], [0]] [[5, 7, 9]]" "bufs_ok 3 ?st"
    by (simp_all add: stage_ok_def is_mat_def bufs_ok_def)
  note t = pinv_solution_consistent[of 3 3 ?I "\<lambda>_. ?I" ?b 1 3 "[[1, 0, 0]]" "[[1], [0], [0]]"
      "[[5, 7, 9]]" ?st 1]
  have h3: "(0 :: nat) < 3" "(1 :: nat) < 3" by simp_all
  from mp[OF conjunct1[OF t]] h1 h3 obtain x r
    where "mooore_penrose_solution (\<lambda>_. ?I) ?I ?b = Inr (x, r)"
      and "frobenius (map2 (map2 (-)) (mat_mul ?I (column x)) ?b) = r"
    by blast
  then have f: "frobenius (map2 (map2 (-)) (mat_mul ?I (column [1, 2, 3])) ?b) = 0"
    by (simp add: mps_eval)
  from mp[OF conjunct2[OF t]] h2 h3 have "\<exists>c x y z r st'.
      get_column [[5, 7, 9]] 1 = Inr c \<and>
      mooore_penrose_solution_ptr [[1, 0, 0]] [[1], [0], [0]] [[5, 7, 9]] ?st [1] = Inr st' \<and>
      intersection_line_set st' ! 1 = (x, y, z) \<and> pinv_norm_set st' ! 1 = r \<and>
      norm2 (map2 (-) (ravel (mat_mul [[1, 0, 0]] (column [x, y, z]))) c) = r"
    by blast
  with h1 h2 f show ?thesis
    by (simp add: mps_eval)
qed

subsection \<open>Parallel evaluation\<close>

lemma job_range_eq: "job_range i s n = [i * s..<min ((i + 1) * s) n]"
  by (simp add: job_range_def min_def)

lemma par_for_eq:
  "par_for n s niter j ts = (j + n, ts @ map (\<lambda>i. job_range i s niter) [j..<j + n])"
proof (induction n arbitrary: j ts)
  case 0
  then show ?case by simp
next
  case (Suc n)
  have "[j..<j + Suc n] = j # [Suc j..<Suc j + n]"
    by (simp add: upt_rec)
  with Suc.IH[of "j + 1" "ts @ [job_range j s niter]"] show ?case
    by simp
qed

lemma concat_job_ranges:
  "concat (map (\<lambda>i. job_range i s n) [0..<p]) = [0..<min (p * s) n]"
proof (induction p)
  case 0
  then show ?case by simp
next
  case (Suc p)
  show ?case
  proof (cases "p * s \<le> n")
    case True
    then have "[0..<p * s] @ [p * s..<min (Suc p * s) n] = [0..<min (Suc p * s) n]"
      by (intro upt_split) simp
    with Suc True show ?thesis
      by (simp add: job_range_eq min_absorb1)
  next
    case False
    then have "min (p * s) n = n" "min (Suc p * s) n = n" by simp_all
    with Suc False show ?thesis
      by (simp add: job_range_eq)
  qed
qed

lemma par_subset_cover: "0 < pnum \<Longrightarrow> niter \<le> pnum * par_subset pnum niter"
proof -
  assume p: "0 < pnum"
  have eq: "niter = pnum * (niter div pnum) + niter mod pnum" by simp
  show ?thesis
  proof (cases "niter mod pnum = 0")
    case True
    with eq show ?thesis by (simp add: par_subset_def)
  next
    case False
    have "niter mod pnum < pnum" using p by simp
    then have "niter \<le> pnum * (niter div pnum) + pnum"
      using eq by linarith
    with False show ?thesis by (simp add: par_subset_def)
  qed
qed

lemma par_jobs_eq:
  assumes "0 < pnum"
  shows "par_jobs pnum niter =
           Some (Inr (if niter = 0 then []
                      else map (\<lambda>i. job_range i (par_subset pnum niter) niter) [0..<pnum]))"
proof (cases "niter = 0")
  case True
  with assms show ?thesis
    by (simp add: par_jobs_def par_while.simps)
next
  case False
  let ?s = "par_subset pnum niter"
  let ?jobs = "map (\<lambda>i. job_range i ?s niter) [0..<pnum]"
  have "par_while pnum ?s niter 0 [] = par_while pnum ?s niter pnum ?jobs"
    using False by (subst par_while.simps) (simp add: par_for_eq)
  also have "\<dots> = Some ?jobs"
    using par_subset_cover[OF assms, of niter] by (subst par_while.simps) simp
  finally show ?thesis
    using assms False by (simp add: par_jobs_def)
qed

lemma par_jobs_cover:
  assumes "0 < pnum"
  shows "\<exists>jobs. par_jobs pnum niter = Some (Inr jobs) \<and> concat jobs = [0..<niter] \<and>
           (\<forall>i < length jobs. \<forall>j < length jobs. i \<noteq> j \<longrightarrow> set (jobs ! i) \<inter> set (jobs ! j) = {})"
proof (cases "niter = 0")
  case True
  then show ?thesis by (simp add: par_jobs_eq[OF assms])
next
  case False
  let ?s = "par_subset pnum niter"
  let ?jobs = "map (\<lambda>i. job_range i ?s niter) [0..<pnum]"
  have c: "concat ?jobs = [0..<niter]"
    using par_subset_cover[OF assms, of niter] by (simp add: concat_job_ranges min_absorb2)
  have d: "set (?jobs ! i) \<inter> set (?jobs ! j) = {}" if "i < j" "j < pnum" for i j
  proof -
    from that have "Suc i \<le> j" by simp
    then have "Suc i * ?s \<le> j * ?s" by (rule mult_le_mono1)
    with that show ?thesis
      by (auto simp: job_range_eq)
  qed
  have "set (?jobs ! i) \<inter> set (?jobs ! j) = {}" if "i < pnum" "j < pnum" "i \<noteq> j" for i j
  proof (cases "i < j")
    case True
    with that show ?thesis by (intro d)
  next
    case False
    with that have "j < i" by simp
    from d[OF this that(1)] show ?thesis by blast
  qed
  with c False show ?thesis
    by (simp add: par_jobs_eq[OF assms])
qed

lemma set_concat_update:
  assumes "i < length ts" "ts ! i = w # rest"
  shows "set (concat ts) = insert w (set (concat (ts[i := rest])))"
proof -
  have 1: "ts = take i ts @ (w # rest) # drop (Suc i) ts"
    using assms id_take_nth_drop[of i ts] by simp
  have 2: "ts[i := rest] = take i ts @ rest # drop (Suc i) ts"
    using assms(1) by (simp add: upd_conv_take_nth_drop)
  have "set (concat ts) = set (concat (take i ts @ (w # rest) # drop (Suc i) ts))"
    using 1 by simp
  also have "\<dots> = insert w (set (concat (take i ts @ rest # drop (Suc i) ts)))"
    by auto
  finally show ?thesis
    by (simp only: 2)
qed

lemma par_run_final:
  assumes "par_run W Wpinv b_set ts st st'"
    and "stage_ok m niter W Wpinv b_set"
    and "bufs_ok niter st"
    and "\<forall>w \<in> set (concat ts). write_index w < niter"
  shows "st' = written W Wpinv b_set (set (concat ts)) st"
  using assms
proof (induction rule: par_run.induct)
  case (joined ts st)
  then have "set (concat ts) = {}"
    by (simp add: list_all_iff)
  then show ?case by (simp only: written_empty)
next
  case (step i ts w rest st st1 st2)
  from step.hyps(1,2) have sc: "set (concat ts) = insert w (set (concat (ts[i := rest])))"
    by (rule set_concat_update)
  have wi: "write_index w < niter"
    and rest: "\<forall>w \<in> set (concat (ts[i := rest])). write_index w < niter"
    using step.prems(3) unfolding sc by blast+
  from exec_write_ok[OF step.prems(1,2) wi] step.hyps(3)
  have st1: "st1 = written W Wpinv b_set {w} st" by simp
  then have "bufs_ok niter st1"
    using step.prems(2) by (simp add: bufs_ok_written)
  from step.IH[OF step.prems(1) this rest]
  show ?case
    by (simp only: st1 written_insert sc)
next
  case (died i ts w rest st e st2)
  from died.hyps(1,2) have sc: "set (concat ts) = insert w (set (concat (ts[i := rest])))"
    by (rule set_concat_update)
  have "write_index w < niter"
    using died.prems(3) unfolding sc by blast
  from exec_write_ok[OF died.prems(1,2) this] died.hyps(3)
  show ?case by simp
qed

lemma thread_writes_index:
  "w \<in> set (thread_writes rng) \<Longrightarrow> write_index w \<in> set rng"
  by (auto simp: thread_writes_def)

lemma concat_thread_writes:
  "concat (map thread_writes jobs) = thread_writes (concat jobs)"
  by (induction jobs) (simp_all add: thread_writes_def)

lemma length_concat_update:
  assumes "i < length ts" "ts ! i = w # rest"
  shows "length (concat ts) = Suc (length (concat (ts[i := rest])))"
proof -
  have 1: "ts = take i ts @ (w # rest) # drop (Suc i) ts"
    using assms id_take_nth_drop[of i ts] by simp
  have 2: "ts[i := rest] = take i ts @ rest # drop (Suc i) ts"
    using assms(1) by (simp add: upd_conv_take_nth_drop)
  have "length (concat ts) = length (concat (take i ts @ (w # rest) # drop (Suc i) ts))"
    using 1 by simp
  also have "\<dots> = Suc (length (concat (take i ts @ rest # drop (Suc i) ts)))"
    by simp
  finally show ?thesis
    by (simp only: 2)
qed

lemma par_run_exists:
  assumes "stage_ok m niter W Wpinv b_set"
  shows "bufs_ok niter st \<Longrightarrow> \<forall>w \<in> set (concat ts). write_index w < niter \<Longrightarrow>
         \<exists>st'. par_run W Wpinv b_set ts st st'"
proof (induction "length (concat ts)" arbitrary: ts st)
  case 0
  then have "list_all (\<lambda>t. t = []) ts"
    by (simp add: list_all_iff)
  then show ?case
    by (blast intro: par_run.joined)
next
  case (Suc n)
  have "\<exists>t \<in> set ts. t \<noteq> []"
  proof (rule ccontr)
    assume "\<not> (\<exists>t \<in> set ts. t \<noteq> [])"
    then have "concat ts = []" by simp
    with Suc.hyps(2) show False by simp
  qed
  then obtain t where "t \<in> set ts" "t \<noteq> []"
    by blast
  then obtain i w rest where i: "i < length ts" and ti: "ts ! i = w # rest"
    by (metis in_set_conv_nth neq_Nil_conv)
  have sc: "set (concat ts) = insert w (set (concat (ts[i := rest])))"
    by (rule set_concat_update[OF i ti])
  have wi: "write_index w < niter"
    and rest: "\<forall>w \<in> set (concat (ts[i := rest])). write_index w < niter"
    using Suc.prems(2) unfolding sc by blast+
  let ?st1 = "written W Wpinv b_set {w} st"
  have e: "exec_write W Wpinv b_set w st = Inr ?st1"
    by (rule exec_write_ok[OF assms Suc.prems(1) wi])
  have ok: "bufs_ok niter ?st1" using Suc.prems(1) by (simp add: bufs_ok_written)
  have "n = length (concat (ts[i := rest]))"
    using length_concat_update[OF i ti] Suc.hyps(2) by simp
  from Suc.hyps(1)[OF this ok rest] obtain st' where "par_run W Wpinv b_set (ts[i := rest]) ?st1 st'"
    by blast
  from par_run.step[OF i ti e this] show ?case by blast
qed

text \<open>
  C6. For a number of workers of at least 1, inputs of fitting shapes and buffers with one
  slot for each of \<open>niter\<close> candidates: the chunking returns, its ranges concatenated are
  \<open>0, ..., niter - 1\<close> in order, so they cover every position once, and two different
  ranges are disjoint; the sequential evaluation of all candidates returns buffers; the
  parallel evaluation has a run; and every run of it, in whatever order the stores of the
  threads interleave, leaves exactly the buffers of the sequential evaluation. The
  survivors are computed from the buffers alone and are therefore the same.
\<close>

theorem parallel_equals_sequential:
  assumes "0 < pnum" and "stage_ok m niter W (pinv W) b_set" and "bufs_ok niter st"
  shows "\<exists>jobs st_seq.
           par_jobs pnum niter = Some (Inr jobs) \<and>
           concat jobs = [0..<niter] \<and>
           (\<forall>i < length jobs. \<forall>j < length jobs. i \<noteq> j \<longrightarrow> set (jobs ! i) \<inter> set (jobs ! j) = {}) \<and>
           mooore_penrose_solution_ptr W (pinv W) b_set st [0..<niter] = Inr st_seq \<and>
           (\<exists>st'. mooore_penrose_solution_par pinv W b_set pnum niter st st') \<and>
           (\<forall>st'. mooore_penrose_solution_par pinv W b_set pnum niter st st' \<longrightarrow> st' = st_seq)"
proof -
  from par_jobs_cover[OF assms(1), of niter] obtain jobs
    where pj: "par_jobs pnum niter = Some (Inr jobs)"
      and cover: "concat jobs = [0..<niter]"
      and disj: "\<forall>i < length jobs. \<forall>j < length jobs. i \<noteq> j \<longrightarrow> set (jobs ! i) \<inter> set (jobs ! j) = {}"
    by blast
  let ?ts = "map thread_writes jobs"
  let ?seq = "written W (pinv W) b_set (set (thread_writes [0..<niter])) st"
  have cw: "concat ?ts = thread_writes [0..<niter]"
    by (simp add: concat_thread_writes cover)
  have bound: "\<forall>w \<in> set (concat ?ts). write_index w < niter"
    unfolding cw using thread_writes_index by fastforce
  have seq: "mooore_penrose_solution_ptr W (pinv W) b_set st [0..<niter] = Inr ?seq"
    by (rule ptr_ok[OF assms(2,3)]) simp
  have par: "mooore_penrose_solution_par pinv W b_set pnum niter st st' \<longleftrightarrow>
               par_run W (pinv W) b_set ?ts st st'" for st'
    by (simp add: mooore_penrose_solution_par_def pj)
  have ex: "\<exists>st'. mooore_penrose_solution_par pinv W b_set pnum niter st st'"
    unfolding par by (rule par_run_exists[OF assms(2,3) bound])
  have un: "st' = ?seq" if "mooore_penrose_solution_par pinv W b_set pnum niter st st'" for st'
  proof -
    from that have "par_run W (pinv W) b_set ?ts st st'" by (simp only: par)
    from par_run_final[OF this assms(2,3) bound] show ?thesis
      by (simp only: cw)
  qed
  from pj cover disj seq ex un show ?thesis by blast
qed

lemma upt_0_3: "[0..<3] = [0, 1, 2]"
  by (simp add: upt_rec)

text \<open>
  C6, an instance: two workers and three candidates, chunked into the ranges \<open>0, 1\<close> and
  \<open>2\<close>.
\<close>

theorem parallel_equals_sequential_witness:
  "(0 :: nat) < 2 \<and>
   stage_ok 1 3 [[1, 0, 0]] ((\<lambda>_. [[1], [0], [0]]) [[1, 0, 0 :: real]]) [[5, 7, 9]] \<and>
   bufs_ok 3 \<lparr>intersection_line_set = [(0, 0, 0), (0, 0, 0), (0, 0, 0)],
              pinv_norm_set = [1, 1, 1]\<rparr> \<and>
   par_jobs 2 3 = Some (Inr [[0, 1], [2]]) \<and>
   {st'. mooore_penrose_solution_par (\<lambda>_. [[1], [0], [0]]) [[1, 0, 0]] [[5, 7, 9]] 2 3
      \<lparr>intersection_line_set = [(0, 0, 0), (0, 0, 0), (0, 0, 0)], pinv_norm_set = [1, 1, 1]\<rparr> st'} =
     {\<lparr>intersection_line_set = [(5, 0, 0), (7, 0, 0), (9, 0, 0)], pinv_norm_set = [0, 0, 0]\<rparr>}"
proof -
  let ?W = "[[1, 0, 0 :: real]]"
  let ?pinv = "\<lambda>_ :: matrix. [[1], [0], [0 :: real]]"
  let ?st = "\<lparr>intersection_line_set = [(0, 0, 0), (0, 0, 0), (0, 0, 0 :: real)],
              pinv_norm_set = [1, 1, 1 :: real]\<rparr>"
  have h0: "(0 :: nat) < 2" by simp
  have h1: "stage_ok 1 3 ?W (?pinv ?W) [[5, 7, 9]]"
    by (simp add: stage_ok_def is_mat_def)
  have h2: "bufs_ok 3 ?st"
    by (simp add: bufs_ok_def)
  have j: "par_jobs 2 3 = Some (Inr [[0, 1], [2]])"
    by (simp add: par_jobs_eq par_subset_def job_range_def upt_rec)
  from parallel_equals_sequential[OF h0 h1 h2] obtain jobs st_seq
    where s: "mooore_penrose_solution_ptr ?W (?pinv ?W) [[5, 7, 9]] ?st [0..<3] = Inr st_seq"
      and e: "\<exists>st'. mooore_penrose_solution_par ?pinv ?W [[5, 7, 9]] 2 3 ?st st'"
      and u: "\<forall>st'. mooore_penrose_solution_par ?pinv ?W [[5, 7, 9]] 2 3 ?st st' \<longrightarrow> st' = st_seq"
    by blast
  from s have "st_seq = \<lparr>intersection_line_set = [(5, 0, 0), (7, 0, 0), (9, 0, 0)],
                  pinv_norm_set = [0, 0, 0]\<rparr>"
    by (simp only: upt_0_3 ptr_eval sum.inject)
  with e u have "{st'. mooore_penrose_solution_par ?pinv ?W [[5, 7, 9]] 2 3 ?st st'} =
     {\<lparr>intersection_line_set = [(5, 0, 0), (7, 0, 0), (9, 0, 0)], pinv_norm_set = [0, 0, 0]\<rparr>}"
    by blast
  with h0 h1 h2 j show ?thesis
    by blast
qed

end
